(* ===== verification/TPM_Prelude.thy ===== *)
theory TPM_Prelude
  imports Main "HOL-Library.Word" "HOL-Library.Sublist"
begin

unbundle bit_operations_syntax

text \<open>
  The vocabulary of the development: machine words, the result type of a C
  function, sequencing, loops, and a weakest-precondition calculus over them.

  A C function that reads or writes the library's globals is an operation
  \<open>('s, 'a) op\<close>: it takes the state and yields
  \<^item> \<open>None\<close> when the call never returns (a polling loop whose timer never runs out),
  \<^item> \<open>Some (Inl f)\<close> when it reaches undefined behaviour \<open>f\<close> (a null pointer that is
    dereferenced, an array access outside its object),
  \<^item> \<open>Some (Inr (a, s))\<close> when it returns \<open>a\<close> and leaves the state \<open>s\<close>.
  So \<^emph>\<open>hangs\<close>, \<^emph>\<open>faults\<close> and \<^emph>\<open>returns\<close> are three different outcomes, and
  a theorem can exclude each of them on its own.
\<close>

section \<open>Words and collections of facts\<close>

type_synonym byte = "8 word"
type_synonym u16 = "16 word"
type_synonym u32 = "32 word"
type_synonym u64 = "64 word"

named_theorems wp_simps \<open>equations that push a weakest precondition through the code\<close>
named_theorems wp_rules \<open>weakest-precondition rules of the operations\<close>

lemma unat_ucast_up:
  fixes x :: "'a::len word"
  assumes "LENGTH('a) \<le> LENGTH('b::len)"
  shows "unat (ucast x :: 'b word) = unat x"
proof -
  have "unat x < 2 ^ LENGTH('a)" by (rule unsigned_less)
  also have "\<dots> \<le> 2 ^ LENGTH('b)" using assms by simp
  finally show ?thesis by (simp add: unsigned_ucast_eq take_bit_nat_eq_self)
qed

lemma unat_ucast_widen [simp]:
  "unat (ucast (a :: byte) :: u16) = unat a" "unat (ucast (a :: byte) :: u32) = unat a"
  "unat (ucast (a :: byte) :: u64) = unat a" "unat (ucast (b :: u16) :: u32) = unat b"
  "unat (ucast (b :: u16) :: u64) = unat b" "unat (ucast (c :: u32) :: u64) = unat c"
  by (simp_all add: unat_ucast_up)

lemma ucast_back [simp]:
  "ucast (ucast (a :: byte) :: u32) = a" "ucast (ucast (b :: u16) :: u32) = b"
  by (rule bit_word_eqI; simp add: bit_simps)+

section \<open>Operations\<close>

datatype fault = Null_Pointer | Out_Of_Bounds

type_synonym ('s, 'a) run = "(fault + 'a \<times> 's) option"
type_synonym ('s, 'a) op = "'s \<Rightarrow> ('s, 'a) run"

definition ret :: "'a \<Rightarrow> ('s, 'a) op" where
  "ret a s = Some (Inr (a, s))"

definition fail :: "fault \<Rightarrow> ('s, 'a) op" where
  "fail f s = Some (Inl f)"

definition andthen :: "('s, 'a) op \<Rightarrow> ('a \<Rightarrow> ('s, 'b) op) \<Rightarrow> ('s, 'b) op" where
  "andthen m k s =
     (case m s of
        None \<Rightarrow> None
      | Some (Inl f) \<Rightarrow> Some (Inl f)
      | Some (Inr (a, s')) \<Rightarrow> k a s')"

definition get_state :: "('s, 's) op" where
  "get_state s = Some (Inr (s, s))"

definition modify :: "('s \<Rightarrow> 's) \<Rightarrow> ('s, unit) op" where
  "modify f s = Some (Inr ((), f s))"

text \<open>Reading through a pointer; the null pointer is \<open>None\<close>.\<close>

definition deref :: "'a option \<Rightarrow> ('s, 'a) op" where
  "deref p = (case p of None \<Rightarrow> fail Null_Pointer | Some a \<Rightarrow> ret a)"

text \<open>Reading the \<open>i\<close>-th element of an array object.\<close>

definition array_get :: "'a list \<Rightarrow> nat \<Rightarrow> ('s, 'a) op" where
  "array_get xs i = (if i < length xs then ret (xs ! i) else fail Out_Of_Bounds)"

text \<open>Running a function that has no access to the globals on a state of its own.\<close>

definition with_local :: "'t \<Rightarrow> ('t, 'a) op \<Rightarrow> ('s, 'a) op" where
  "with_local t m s =
     (case m t of
        None \<Rightarrow> None
      | Some (Inl f) \<Rightarrow> Some (Inl f)
      | Some (Inr (a, _)) \<Rightarrow> Some (Inr (a, s)))"

lemma andthen_ret [simp]: "andthen (ret a) k = k a"
  by (simp add: andthen_def ret_def fun_eq_iff)

lemma andthen_fail [simp]: "andthen (fail f) k = fail f"
  by (simp add: andthen_def fail_def fun_eq_iff)

lemma andthen_ret_right [simp]: "andthen m ret = m"
  by (auto simp: andthen_def ret_def fun_eq_iff split: option.split sum.split)

lemma andthen_assoc: "andthen (andthen m k) h = andthen m (\<lambda>a. andthen (k a) h)"
  by (auto simp: andthen_def fun_eq_iff split: option.split sum.split)

lemma andthen_eq_Some_Inr:
  "andthen m k s = Some (Inr (b, t)) \<longleftrightarrow>
     (\<exists>a s'. m s = Some (Inr (a, s')) \<and> k a s' = Some (Inr (b, t)))"
  by (auto simp: andthen_def split: option.split sum.split)

lemma deref_simps [simp]: "deref (Some a) = ret a" "deref None = fail Null_Pointer"
  by (simp_all add: deref_def)

section \<open>Loops\<close>

text \<open>
  A C loop with an unknown number of iterations. The body takes the loop
  variables and either leaves the loop with a result (\<open>Inl\<close>) or goes round
  again with new values (\<open>Inr\<close>).
\<close>

lemma andthen_mono [partial_function_mono]:
  fixes B :: "('x \<Rightarrow> 'y option) \<Rightarrow> ('s, 'a) op" and C :: "('x \<Rightarrow> 'y option) \<Rightarrow> 'a \<Rightarrow> ('s, 'b) op"
  assumes "\<And>s. mono_option (\<lambda>f. B f s)" and "\<And>y s. mono_option (\<lambda>f. C f y s)"
  shows "mono_option (\<lambda>f. andthen (B f) (C f) s)"
proof (rule monotoneI)
  fix f g :: "'x \<Rightarrow> 'y option"
  assume fg: "option.le_fun f g"
  have B: "option_ord (B f s) (B g s)" by (rule monotoneD [OF assms(1), OF fg])
  show "flat_ord None (andthen (B f) (C f) s) (andthen (B g) (C g) s)"
  proof (cases "B f s")
    case None
    then show ?thesis by (simp add: andthen_def flat_ord_def)
  next
    case (Some r)
    with B have Bg: "B g s = Some r" by (simp add: flat_ord_def)
    have "option_ord (C f a s') (C g a s')" for a s'
      by (rule monotoneD [OF assms(2), OF fg])
    then show ?thesis using Some Bg
      by (auto simp: andthen_def flat_ord_def split: sum.split)
  qed
qed

partial_function (option) loop ::
  "('x \<Rightarrow> ('s, 'r + 'x) op) \<Rightarrow> 'x \<Rightarrow> ('s, 'r) op" where
  "loop body x s =
     andthen (body x) (\<lambda>e s'. case e of Inl r \<Rightarrow> ret r s' | Inr y \<Rightarrow> loop body y s') s"

declare loop.simps [code]

text \<open>Calls made one after the other whose results the code ignores.\<close>

fun each :: "('x \<Rightarrow> ('s, 'a) op) \<Rightarrow> 'x list \<Rightarrow> ('s, unit) op" where
  "each f [] = ret ()"
| "each f (x # xs) = andthen (f x) (\<lambda>_. each f xs)"

lemma each_append: "each f (xs @ ys) = andthen (each f xs) (\<lambda>_. each f ys)"
  by (induction xs) (simp_all add: andthen_assoc)

section \<open>Weakest preconditions\<close>

text \<open>
  \<open>wp h f m Q s\<close>: started in \<open>s\<close>, the operation \<open>m\<close> returns with \<open>Q\<close>; it may hang
  only if \<open>h\<close>, and fault only if \<open>f\<close>. Total correctness is \<open>wp False False\<close>.
\<close>

definition wp :: "bool \<Rightarrow> bool \<Rightarrow> ('s, 'a) op \<Rightarrow> ('a \<Rightarrow> 's \<Rightarrow> bool) \<Rightarrow> 's \<Rightarrow> bool" where
  "wp h f m Q s =
     (case m s of None \<Rightarrow> h | Some (Inl _) \<Rightarrow> f | Some (Inr (a, s')) \<Rightarrow> Q a s')"

lemma wp_andthen [wp_simps]:
  "wp h f (andthen m k) Q s = wp h f m (\<lambda>a. wp h f (k a) Q) s"
  by (simp add: wp_def andthen_def split: option.split sum.split)

lemma wp_ret [wp_simps]: "wp h f (ret a) Q s = Q a s"
  by (simp add: wp_def ret_def)

lemma wp_ret_eta [wp_simps]: "wp h f (ret a) Q = Q a"
  by (simp add: fun_eq_iff wp_ret)

lemma wp_fail [wp_simps]: "wp h f (fail e) Q s = f"
  by (simp add: wp_def fail_def)

lemma wp_get_state [wp_simps]: "wp h f get_state Q s = Q s s"
  by (simp add: wp_def get_state_def)

lemma wp_modify [wp_simps]: "wp h f (modify g) Q s = Q () (g s)"
  by (simp add: wp_def modify_def)

lemma wp_if [wp_simps]:
  "wp h f (if b then m else m') Q s = (if b then wp h f m Q s else wp h f m' Q s)"
  by simp

lemma wp_let [wp_simps]: "wp h f (let x = e in m x) Q s = (let x = e in wp h f (m x) Q s)"
  by simp

lemma wp_case_prod [wp_simps]:
  "wp h f (case p of (a, b) \<Rightarrow> m a b) Q s = (case p of (a, b) \<Rightarrow> wp h f (m a b) Q s)"
  by (simp split: prod.split)

lemma wp_case_option [wp_simps]:
  "wp h f (case p of None \<Rightarrow> m | Some a \<Rightarrow> k a) Q s =
     (case p of None \<Rightarrow> wp h f m Q s | Some a \<Rightarrow> wp h f (k a) Q s)"
  by (simp split: option.split)

lemma wp_array_get [wp_simps]:
  "wp h f (array_get xs i) Q s = (if i < length xs then Q (xs ! i) s else f)"
  by (simp add: array_get_def wp_simps)

lemma wp_with_local [wp_simps]:
  "wp h f (with_local t m) Q s = wp h f m (\<lambda>a _. Q a s) t"
  by (auto simp: wp_def with_local_def split: option.split sum.split)

lemma wp_mono:
  assumes "wp h f m Q s" and "\<And>a s'. Q a s' \<Longrightarrow> R a s'"
  shows "wp h f m R s"
  using assms by (auto simp: wp_def split: option.splits sum.splits)

lemma wp_seq:
  assumes "wp h f m R s" and "\<And>a t. R a t \<Longrightarrow> wp h f (k a) Q t"
  shows "wp h f (andthen m k) Q s"
  unfolding wp_andthen using assms by (rule wp_mono)

lemma wp_ifI:
  assumes "b \<Longrightarrow> wp h f m Q s" and "\<not> b \<Longrightarrow> wp h f m' Q s"
  shows "wp h f (if b then m else m') Q s"
  using assms by simp

lemma wp_conj:
  assumes "wp h f m Q s" and "wp h' f' m R s"
  shows "wp (h \<and> h') (f \<and> f') m (\<lambda>a s'. Q a s' \<and> R a s') s"
  using assms by (auto simp: wp_def split: option.splits sum.splits)

lemma wp_weaken_modes:
  assumes "wp h f m Q s" and "h \<Longrightarrow> h'" and "f \<Longrightarrow> f'"
  shows "wp h' f' m Q s"
  using assms by (auto simp: wp_def split: option.splits sum.splits)

lemma wp_returns: "wp h f m Q s \<Longrightarrow> m s = Some (Inr (a, s')) \<Longrightarrow> Q a s'"
  by (simp add: wp_def)

lemma wp_ran: "wp h f m Q s \<Longrightarrow> wp h f m (\<lambda>a t. Q a t \<and> m s = Some (Inr (a, t))) s"
  by (auto simp: wp_def split: option.splits sum.splits)

lemma with_local_ret:
  "wp False False m (\<lambda>a _. a = x) t \<Longrightarrow> with_local t m = ret x"
  by (auto simp: wp_def with_local_def ret_def fun_eq_iff split: option.splits sum.splits)

lemma with_local_ex:
  "wp False False m (\<lambda>a _. P a) t \<Longrightarrow> \<exists>a. with_local t m = ret a \<and> P a"
  by (auto simp: wp_def with_local_def ret_def fun_eq_iff split: option.splits sum.splits)

lemma wp_total_iff: "wp False False m Q s \<longleftrightarrow> (\<exists>a s'. m s = Some (Inr (a, s')) \<and> Q a s')"
  by (auto simp: wp_def split: option.splits sum.splits)

lemma wp_partialI:
  "(\<And>a s'. m s = Some (Inr (a, s')) \<Longrightarrow> Q a s') \<Longrightarrow> wp True True m Q s"
  by (auto simp: wp_def split: option.splits sum.splits)

lemma wp_partial_iff:
  "wp True True m Q s \<longleftrightarrow> (\<forall>a s'. m s = Some (Inr (a, s')) \<longrightarrow> Q a s')"
  by (auto simp: wp_def split: option.splits sum.splits)

lemma loop_unfold:
  "loop body x =
     andthen (body x) (\<lambda>e. case e of Inl r \<Rightarrow> ret r | Inr y \<Rightarrow> loop body y)"
proof
  fix s
  show "loop body x s =
     andthen (body x) (\<lambda>e. case e of Inl r \<Rightarrow> ret r | Inr y \<Rightarrow> loop body y) s"
    by (subst loop.simps) (auto simp: andthen_def split: option.split sum.split)
qed

lemma loop_exit: "body x s = Some (Inr (Inl r, t)) \<Longrightarrow> loop body x s = Some (Inr (r, t))"
  by (subst loop_unfold) (simp add: andthen_def ret_def)

lemma loop_again: "body x s = Some (Inr (Inr y, t)) \<Longrightarrow> loop body x s = loop body y t"
  by (subst loop_unfold) (simp add: andthen_def)

lemma loop_fault: "body x s = Some (Inl f) \<Longrightarrow> loop body x s = Some (Inl f)"
  by (subst loop_unfold) (simp add: andthen_def)

text \<open>A loop that may run forever: an invariant of the body holds when it leaves.\<close>

lemma wp_loop_partial:
  assumes body: "\<And>x s. I x s \<Longrightarrow>
      wp True f (body x) (\<lambda>e s'. case e of Inl r \<Rightarrow> Q r s' | Inr y \<Rightarrow> I y s') s"
    and "I x s"
  shows "wp True f (loop body x) Q s"
proof -
  have "body = body \<longrightarrow> I x s \<longrightarrow> (case res of Inl _ \<Rightarrow> f | Inr (r, s') \<Rightarrow> Q r s')"
    if res: "loop body x s = Some res" for res
  proof (rule loop.raw_induct [where P = "\<lambda>b x s res. b = body \<longrightarrow> I x s \<longrightarrow>
        (case res of Inl _ \<Rightarrow> f | Inr (r, s') \<Rightarrow> Q r s')"
        and xa = "((body, x), s)" and y = res, unfolded prod.case, OF _ res], intro impI)
    fix rec b y t res'
    assume IH: "\<And>b x s res. rec b x s = Some res \<Longrightarrow> b = body \<longrightarrow> I x s \<longrightarrow>
        (case res of Inl _ \<Rightarrow> f | Inr (r, s') \<Rightarrow> Q r s')"
      and eq: "andthen (b y) (\<lambda>e s'. case e of Inl r \<Rightarrow> ret r s' | Inr y \<Rightarrow> rec b y s') t
        = Some res'"
      and b: "b = body" and inv: "I y t"
    from body [OF inv] eq b IH show "case res' of Inl _ \<Rightarrow> f | Inr (r, s') \<Rightarrow> Q r s'"
      by (fastforce simp: wp_def andthen_def ret_def split: option.splits sum.splits)
  qed
  then show ?thesis using \<open>I x s\<close>
    by (auto simp: wp_def split: option.splits sum.splits)
qed

text \<open>A loop that ends: besides, a measure decreases whenever it goes round.\<close>

lemma wp_loop_total:
  fixes measr :: "'x \<Rightarrow> 's \<Rightarrow> nat"
  assumes body: "\<And>x s. I x s \<Longrightarrow>
      wp h f (body x)
        (\<lambda>e s'. case e of Inl r \<Rightarrow> Q r s' | Inr y \<Rightarrow> I y s' \<and> measr y s' < measr x s) s"
    and "I x s"
  shows "wp h f (loop body x) Q s"
  using \<open>I x s\<close>
proof (induction "measr x s" arbitrary: x s rule: less_induct)
  case less
  have "wp h f (body x) (\<lambda>e. wp h f (case e of Inl r \<Rightarrow> ret r | Inr y \<Rightarrow> loop body y) Q) s"
    by (rule wp_mono [OF body [OF less.prems]])
      (auto simp: wp_ret split: sum.splits intro: less.hyps)
  then show ?case
    by (subst loop_unfold) (simp add: wp_andthen)
qed

end
