(* ===== verification/TPM_Endian.thy ===== *)
theory TPM_Endian
  imports TPM_Prelude
begin

unbundle bit_operations_syntax

text \<open>
  \<^verbatim>\<open>include/endian_private.h\<close>: conversion between host and big-endian byte order,
  for both values of \<^verbatim>\<open>__BYTE_ORDER__\<close>, and the bytes a 16- or 32-bit object has in
  memory. Every definition that depends on the host takes its byte order as an
  argument, so the theorems hold for little- and big-endian builds. The byte swaps are those
  of the portable branch; GNU compilers use their builtins, which compute the same.
\<close>

section \<open>Byte swapping and host conversions\<close>

datatype byte_order = Little_Endian | Big_Endian

definition bswap16 :: "u16 \<Rightarrow> u16" where
  "bswap16 x = (drop_bit 8 x) OR ((push_bit 8 x) AND 0xff00)"

definition bswap32 :: "u32 \<Rightarrow> u32" where
  "bswap32 x =
     (drop_bit 24 x) OR ((drop_bit 8 x) AND 0xff00) OR
     ((push_bit 8 x) AND 0xff0000) OR ((push_bit 24 x) AND 0xff000000)"

definition htobe32 :: "byte_order \<Rightarrow> u32 \<Rightarrow> u32" where
  "htobe32 bo x = (case bo of Little_Endian \<Rightarrow> bswap32 x | Big_Endian \<Rightarrow> x)"

definition be32toh :: "byte_order \<Rightarrow> u32 \<Rightarrow> u32" where
  "be32toh bo x = (case bo of Little_Endian \<Rightarrow> bswap32 x | Big_Endian \<Rightarrow> x)"

definition htobe16 :: "byte_order \<Rightarrow> u16 \<Rightarrow> u16" where
  "htobe16 bo x = (case bo of Little_Endian \<Rightarrow> bswap16 x | Big_Endian \<Rightarrow> x)"

definition be16toh :: "byte_order \<Rightarrow> u16 \<Rightarrow> u16" where
  "be16toh bo x = (case bo of Little_Endian \<Rightarrow> bswap16 x | Big_Endian \<Rightarrow> x)"

section \<open>Objects in memory\<close>

text \<open>Big-endian byte strings: what the TPM sees on the wire.\<close>

definition be16 :: "u16 \<Rightarrow> byte list" where
  "be16 x = [ucast (drop_bit 8 x), ucast x]"

definition be32 :: "u32 \<Rightarrow> byte list" where
  "be32 x = [ucast (drop_bit 24 x), ucast (drop_bit 16 x), ucast (drop_bit 8 x), ucast x]"

definition of_be16 :: "byte \<Rightarrow> byte \<Rightarrow> u16" where
  "of_be16 a b = (push_bit 8 (ucast a)) OR (ucast b)"

definition of_be32 :: "byte \<Rightarrow> byte \<Rightarrow> byte \<Rightarrow> byte \<Rightarrow> u32" where
  "of_be32 a b c d =
     (push_bit 24 (ucast a)) OR (push_bit 16 (ucast b)) OR (push_bit 8 (ucast c)) OR (ucast d)"

text \<open>The bytes of an object at increasing addresses, and the object with given bytes.\<close>

definition mem16 :: "byte_order \<Rightarrow> u16 \<Rightarrow> byte list" where
  "mem16 bo x = (case bo of Little_Endian \<Rightarrow> rev (be16 x) | Big_Endian \<Rightarrow> be16 x)"

definition mem32 :: "byte_order \<Rightarrow> u32 \<Rightarrow> byte list" where
  "mem32 bo x = (case bo of Little_Endian \<Rightarrow> rev (be32 x) | Big_Endian \<Rightarrow> be32 x)"

definition of_mem16 :: "byte_order \<Rightarrow> byte \<Rightarrow> byte \<Rightarrow> u16" where
  "of_mem16 bo a b = (case bo of Little_Endian \<Rightarrow> of_be16 b a | Big_Endian \<Rightarrow> of_be16 a b)"

definition of_mem32 :: "byte_order \<Rightarrow> byte \<Rightarrow> byte \<Rightarrow> byte \<Rightarrow> byte \<Rightarrow> u32" where
  "of_mem32 bo a b c d =
     (case bo of Little_Endian \<Rightarrow> of_be32 d c b a | Big_Endian \<Rightarrow> of_be32 a b c d)"

section \<open>Lemmas\<close>

lemma length_be16 [simp]: "length (be16 x) = 2"
  by (simp add: be16_def)

lemma length_be32 [simp]: "length (be32 x) = 4"
  by (simp add: be32_def)

lemma length_mem16 [simp]: "length (mem16 bo x) = 2"
  by (simp add: mem16_def split: byte_order.split)

lemma length_mem32 [simp]: "length (mem32 bo x) = 4"
  by (simp add: mem32_def split: byte_order.split)

lemma byte_masks:
  "(0xff00 :: u16) = push_bit 8 (mask 8)"
  "(0xff00 :: u32) = push_bit 8 (mask 8)"
  "(0xff0000 :: u32) = push_bit 16 (mask 8)"
  "(0xff000000 :: u32) = push_bit 24 (mask 8)"
  by (simp_all add: mask_eq_exp_minus_1)

text \<open>Bits outside a word are clear; positions are shifted back when in range.\<close>

lemma bit_byte_out [simp]: "8 \<le> n \<Longrightarrow> \<not> bit (b :: byte) n"
  using bit_imp_le_length [of b n] by auto

lemma bit_u16_out [simp]: "16 \<le> n \<Longrightarrow> \<not> bit (x :: u16) n"
  using bit_imp_le_length [of x n] by auto

lemma bit_u32_out [simp]: "32 \<le> n \<Longrightarrow> \<not> bit (x :: u32) n"
  using bit_imp_le_length [of x n] by auto

lemma byte_of_bit:
  fixes n :: nat
  assumes "n < 32"
  obtains "n < 8" | k where "n = 8 + k" "k < 8" | k where "n = 16 + k" "k < 8"
    | k where "n = 24 + k" "k < 8"
proof -
  consider "n < 8" | "8 \<le> n" "n < 16" | "16 \<le> n" "n < 24" | "24 \<le> n" using assms by linarith
  then show ?thesis
  proof cases
    case 1 then show ?thesis by (rule that(1))
  next
    case 2 then show ?thesis using that(2) [of "n - 8"] by simp
  next
    case 3 then show ?thesis using that(3) [of "n - 16"] by simp
  next
    case 4 then show ?thesis using that(4) [of "n - 24"] assms by simp
  qed
qed

lemma of_be16_bytes [simp]: "of_be16 (ucast (drop_bit 8 x)) (ucast x) = x"
  unfolding of_be16_def
  by (rule bit_word_eqI) (auto simp: bit_simps)

lemma of_be32_bytes [simp]:
  "of_be32 (ucast (drop_bit 24 x)) (ucast (drop_bit 16 x)) (ucast (drop_bit 8 x)) (ucast x) = x"
  unfolding of_be32_def
proof (rule bit_word_eqI)
  fix n assume "n < LENGTH(32)"
  then have "n < 32" by simp
  then show "bit (push_bit 24 (ucast (ucast (drop_bit 24 x) :: byte)) OR
      push_bit 16 (ucast (ucast (drop_bit 16 x) :: byte)) OR
      push_bit 8 (ucast (ucast (drop_bit 8 x) :: byte)) OR ucast (ucast x :: byte) :: u32) n = bit x n"
    by (cases rule: byte_of_bit) (simp_all add: bit_simps)
qed

lemma be16_of_be16 [simp]: "be16 (of_be16 a b) = [a, b]"
  unfolding be16_def of_be16_def
  by (auto intro!: bit_word_eqI simp: bit_simps)

lemma be32_of_be32 [simp]: "be32 (of_be32 a b c d) = [a, b, c, d]"
  unfolding be32_def of_be32_def
  by (auto intro!: bit_word_eqI simp: bit_simps)

lemma bswap16_alt: "bswap16 x = of_be16 (ucast x) (ucast (drop_bit 8 x))"
  unfolding bswap16_def of_be16_def byte_masks
proof (rule bit_word_eqI)
  fix n assume "n < LENGTH(16)"
  then have "n < 16" by simp
  moreover from this have "n < 32" by simp
  then show "bit (drop_bit 8 x OR push_bit 8 x AND push_bit 8 (mask 8)) n =
      bit (push_bit 8 (ucast (ucast x :: byte)) OR ucast (ucast (drop_bit 8 x) :: byte) :: u16) n"
    using calculation by (cases rule: byte_of_bit) (simp_all add: bit_simps)
qed

lemma bswap32_alt:
  "bswap32 x =
     of_be32 (ucast x) (ucast (drop_bit 8 x)) (ucast (drop_bit 16 x)) (ucast (drop_bit 24 x))"
  unfolding bswap32_def of_be32_def byte_masks
proof (rule bit_word_eqI)
  fix n assume "n < LENGTH(32)"
  then have "n < 32" by simp
  then show "bit (drop_bit 24 x OR drop_bit 8 x AND push_bit 8 (mask 8) OR
      push_bit 8 x AND push_bit 16 (mask 8) OR push_bit 24 x AND push_bit 24 (mask 8)) n =
      bit (push_bit 24 (ucast (ucast x :: byte)) OR
        push_bit 16 (ucast (ucast (drop_bit 8 x) :: byte)) OR
        push_bit 8 (ucast (ucast (drop_bit 16 x) :: byte)) OR
        ucast (ucast (drop_bit 24 x) :: byte) :: u32) n"
    by (cases rule: byte_of_bit) (simp_all add: bit_simps)
qed

lemma be16_bswap16: "be16 (bswap16 x) = rev (be16 x)"
  by (simp add: bswap16_alt) (simp add: be16_def)

lemma be32_bswap32: "be32 (bswap32 x) = rev (be32 x)"
  by (simp add: bswap32_alt) (simp add: be32_def)

lemma of_be16_nth [simp]: "of_be16 (be16 x ! 0) (be16 x ! 1) = x"
  by (simp add: be16_def)

lemma of_be32_nth [simp]: "of_be32 (be32 x ! 0) (be32 x ! 1) (be32 x ! 2) (be32 x ! 3) = x"
  by (simp add: be32_def)

lemma be16_inject [simp]: "be16 x = be16 y \<longleftrightarrow> x = y"
  using of_be16_nth [of x] of_be16_nth [of y] by metis

lemma be32_inject [simp]: "be32 x = be32 y \<longleftrightarrow> x = y"
  using of_be32_nth [of x] of_be32_nth [of y] by metis

lemma bswap16_bswap16 [simp]: "bswap16 (bswap16 x) = x"
  by (rule be16_inject [THEN iffD1]) (simp add: be16_bswap16)

lemma bswap32_bswap32 [simp]: "bswap32 (bswap32 x) = x"
  by (rule be32_inject [THEN iffD1]) (simp add: be32_bswap32)

lemma be32toh_htobe32 [simp]: "be32toh bo (htobe32 bo x) = x"
  by (simp add: be32toh_def htobe32_def split: byte_order.split)

lemma htobe32_be32toh [simp]: "htobe32 bo (be32toh bo x) = x"
  by (simp add: be32toh_def htobe32_def split: byte_order.split)

lemma be16toh_htobe16 [simp]: "be16toh bo (htobe16 bo x) = x"
  by (simp add: be16toh_def htobe16_def split: byte_order.split)

lemma mem16_htobe16 [simp]: "mem16 bo (htobe16 bo x) = be16 x"
  by (simp add: mem16_def htobe16_def be16_bswap16 split: byte_order.split)

lemma mem32_htobe32 [simp]: "mem32 bo (htobe32 bo x) = be32 x"
  by (simp add: mem32_def htobe32_def be32_bswap32 split: byte_order.split)

lemma be16toh_of_mem16 [simp]: "be16toh bo (of_mem16 bo a b) = of_be16 a b"
proof -
  have "be16 (bswap16 (of_be16 b a)) = be16 (of_be16 a b)"
    by (simp only: be16_bswap16 be16_of_be16 rev.simps append.simps)
  then have "bswap16 (of_be16 b a) = of_be16 a b" by (rule be16_inject [THEN iffD1])
  then show ?thesis
    by (simp add: be16toh_def of_mem16_def split: byte_order.split)
qed

lemma be32toh_of_mem32 [simp]: "be32toh bo (of_mem32 bo a b c d) = of_be32 a b c d"
proof -
  have "be32 (bswap32 (of_be32 d c b a)) = be32 (of_be32 a b c d)"
    by (simp only: be32_bswap32 be32_of_be32 rev.simps append.simps)
  then have "bswap32 (of_be32 d c b a) = of_be32 a b c d" by (rule be32_inject [THEN iffD1])
  then show ?thesis
    by (simp add: be32toh_def of_mem32_def split: byte_order.split)
qed

lemma mem16_of_mem16 [simp]: "mem16 bo (of_mem16 bo a b) = [a, b]"
  by (simp add: mem16_def of_mem16_def split: byte_order.split)

lemma mem32_of_mem32 [simp]: "mem32 bo (of_mem32 bo a b c d) = [a, b, c, d]"
  by (simp add: mem32_def of_mem32_def split: byte_order.split)

text \<open>Storing a converted value and reading its bytes back is the identity on the wire.\<close>

lemma be16_nths: "be16 x = [be16 x ! 0, be16 x ! 1]"
  by (simp add: be16_def)

lemma be32_nths: "be32 x = [be32 x ! 0, be32 x ! 1, be32 x ! 2, be32 x ! 3]"
  by (simp add: be32_def)

end
