(* ===== verification/TPM_Types.thy ===== *)
theory TPM_Types
  imports TPM_Endian
begin

text \<open>
  The constants and data types of the headers (\<^verbatim>\<open>tpm2.h\<close>, \<^verbatim>\<open>tpm2_private.h\<close>,
  \<^verbatim>\<open>tpm2_chip.h\<close>, \<^verbatim>\<open>transport/spi.h\<close>, \<^verbatim>\<open>platform/tpm_platform.h\<close>), the chip data of
  \<^verbatim>\<open>tpm2_chip.c\<close>, and the record of the library's global variables.

  The platform is a parameter: its SPI operations and its timer are fields of records
  of functions over a type \<open>'p\<close>, the state of everything the library cannot see (the
  SPI controller behind \<^verbatim>\<open>struct tpm_spi_priv\<close>, the TPM on the bus, the clock). Each
  platform function maps that state to its result and the next state.
\<close>

section \<open>Return values\<close>

definition TPM_SUCCESS :: int where [simp]: "TPM_SUCCESS = 0"
definition TPM_ERR_RESPONSE :: int where [simp]: "TPM_ERR_RESPONSE = -1"
definition TPM_INVALID_PARAM :: int where [simp]: "TPM_INVALID_PARAM = -2"
definition TPM_ERR_TIMEOUT :: int where [simp]: "TPM_ERR_TIMEOUT = -3"
definition TPM_ERR_TRANSFER :: int where [simp]: "TPM_ERR_TRANSFER = -4"
definition TPM_ERR_ITERATION_LIMIT :: int where [simp]: "TPM_ERR_ITERATION_LIMIT = -5"
definition TPM_ERR_ALREADY_INIT :: int where [simp]: "TPM_ERR_ALREADY_INIT = -6"

section \<open>Constants of \<open>tpm2.h\<close> and \<open>tpm2_private.h\<close>\<close>

definition TPM_ALG_NULL :: u16 where [simp]: "TPM_ALG_NULL = 0x0010"
definition TPM_PCR_SELECT_SIZE :: byte where [simp]: "TPM_PCR_SELECT_SIZE = 3"
definition TPM_DEFAULT_PAGE_COUNT :: u32 where [simp]: "TPM_DEFAULT_PAGE_COUNT = 16"
definition TPM_MAX_PAGES :: nat where [simp]: "TPM_MAX_PAGES = 64"
definition TPM_MAX_PCR_SELECTIONS :: nat where [simp]: "TPM_MAX_PCR_SELECTIONS = 8"
definition TPM_MAX_ALG_PROPERTIES :: nat where [simp]: "TPM_MAX_ALG_PROPERTIES = 64"

definition TPM_FIFO_REG_ACCESS :: u32 where [simp]: "TPM_FIFO_REG_ACCESS = 0x000"
definition TPM_FIFO_REG_STATUS :: u32 where [simp]: "TPM_FIFO_REG_STATUS = 0x018"
definition TPM_FIFO_REG_BURST_COUNT_LO :: u32 where [simp]: "TPM_FIFO_REG_BURST_COUNT_LO = 0x019"
definition TPM_FIFO_REG_BURST_COUNT_HI :: u32 where [simp]: "TPM_FIFO_REG_BURST_COUNT_HI = 0x020"
definition TPM_FIFO_REG_DATA_FIFO :: u32 where [simp]: "TPM_FIFO_REG_DATA_FIFO = 0x024"
definition TPM_FIFO_REG_VENDID :: u32 where [simp]: "TPM_FIFO_REG_VENDID = 0xF00"
definition TPM_FIFO_REG_REVID :: u32 where [simp]: "TPM_FIFO_REG_REVID = 0xF04"

definition TPM_ST_NO_SESSIONS :: u16 where [simp]: "TPM_ST_NO_SESSIONS = 0x8001"
definition TPM_ST_SESSIONS :: u16 where [simp]: "TPM_ST_SESSIONS = 0x8002"

definition TPM_MIN_AUTH_SIZE :: u32 where [simp]: "TPM_MIN_AUTH_SIZE = 9"
definition TPM_RS_PW :: u32 where [simp]: "TPM_RS_PW = 0x40000009"
definition TPM_RH_PLATFORM :: u32 where [simp]: "TPM_RH_PLATFORM = 0x4000000C"
definition TPM_ZERO_NONCE_SIZE :: u32 where [simp]: "TPM_ZERO_NONCE_SIZE = 0"
definition TPM_ATTRIBUTES_DISABLE :: u32 where [simp]: "TPM_ATTRIBUTES_DISABLE = 0"
definition TPM_ZERO_HMAC_SIZE :: u32 where [simp]: "TPM_ZERO_HMAC_SIZE = 0"
definition TPM_SINGLE_HASH_COUNT :: u32 where [simp]: "TPM_SINGLE_HASH_COUNT = 1"

definition TPM_CMD_STARTUP :: u32 where [simp]: "TPM_CMD_STARTUP = 0x0144"
definition TPM_CMD_PCR_READ :: u32 where [simp]: "TPM_CMD_PCR_READ = 0x017E"
definition TPM_CMD_PCR_EXTEND :: u32 where [simp]: "TPM_CMD_PCR_EXTEND = 0x0182"
definition TPM_CMD_GET_CAPABILITY :: u32 where [simp]: "TPM_CMD_GET_CAPABILITY = 0x017A"
definition TPM_CMD_PCR_ALLOCATE :: u32 where [simp]: "TPM_CMD_PCR_ALLOCATE = 0x012B"

definition TPM_CAP_ALGS :: u32 where [simp]: "TPM_CAP_ALGS = 0x00000000"
definition TPM_CAP_PCRS :: u32 where [simp]: "TPM_CAP_PCRS = 0x00000005"

definition TPM_RESPONSE_SUCCESS :: u32 where [simp]: "TPM_RESPONSE_SUCCESS = 0x0000"
definition TPM_RC_INITIALIZE :: u32 where [simp]: "TPM_RC_INITIALIZE = 0x0100"

definition TPM_ACCESS_ACTIVE_LOCALITY :: byte where [simp]: "TPM_ACCESS_ACTIVE_LOCALITY = 0x20"
definition TPM_ACCESS_VALID :: byte where [simp]: "TPM_ACCESS_VALID = 0x80"
definition TPM_ACCESS_RELINQUISH_LOCALITY :: byte
  where [simp]: "TPM_ACCESS_RELINQUISH_LOCALITY = 0x20"
definition TPM_ACCESS_REQUEST_USE :: byte where [simp]: "TPM_ACCESS_REQUEST_USE = 0x02"
definition TPM_ACCESS_REQUEST_PENDING :: byte where [simp]: "TPM_ACCESS_REQUEST_PENDING = 0x04"

definition TPM_STAT_VALID :: byte where [simp]: "TPM_STAT_VALID = 0x80"
definition TPM_STAT_COMMAND_READY :: byte where [simp]: "TPM_STAT_COMMAND_READY = 0x40"
definition TPM_STAT_GO :: byte where [simp]: "TPM_STAT_GO = 0x20"
definition TPM_STAT_AVAIL :: byte where [simp]: "TPM_STAT_AVAIL = 0x10"
definition TPM_STAT_EXPECT :: byte where [simp]: "TPM_STAT_EXPECT = 0x08"

definition TPM_READ_HEADER :: int where [simp]: "TPM_READ_HEADER = -1"

definition TPM_HEADER_SIZE :: nat where [simp]: "TPM_HEADER_SIZE = 10"
definition MAX_SIZE_CMDBUF :: nat where [simp]: "MAX_SIZE_CMDBUF = 256"
definition MAX_CMD_DATA :: nat where [simp]: "MAX_CMD_DATA = MAX_SIZE_CMDBUF - TPM_HEADER_SIZE"
definition MAX_DIGEST_SIZE :: nat where [simp]: "MAX_DIGEST_SIZE = 48"

section \<open>Command buffers\<close>

text \<open>
  The fields of the packed header hold what is stored in memory, that is values already
  converted to big-endian by the code; \<open>hdr_bytes\<close> is the header seen through a byte
  pointer, \<open>hdr_of_bytes\<close> the header made of ten bytes.
\<close>

record tpm_cmd_hdr =
  tag :: u16
  cmd_size :: u32
  cmd_code :: u32

record tpm_cmd =
  header :: tpm_cmd_hdr
  data :: "byte list"

definition hdr_bytes :: "byte_order \<Rightarrow> tpm_cmd_hdr \<Rightarrow> byte list" where
  "hdr_bytes bo h = mem16 bo (tag h) @ mem32 bo (cmd_size h) @ mem32 bo (cmd_code h)"

definition hdr_of_bytes :: "byte_order \<Rightarrow> byte list \<Rightarrow> tpm_cmd_hdr" where
  "hdr_of_bytes bo b =
     \<lparr>tag = of_mem16 bo (b ! 0) (b ! 1),
      cmd_size = of_mem32 bo (b ! 2) (b ! 3) (b ! 4) (b ! 5),
      cmd_code = of_mem32 bo (b ! 6) (b ! 7) (b ! 8) (b ! 9)\<rparr>"

text \<open>A command buffer object: \<open>data\<close> is an array of \<open>MAX_CMD_DATA\<close> bytes.\<close>

definition wf_cmd :: "tpm_cmd \<Rightarrow> bool" where
  "wf_cmd c \<longleftrightarrow> length (data c) = MAX_CMD_DATA"

definition sizeof_tpm_cmd :: nat where
  [simp]: "sizeof_tpm_cmd = TPM_HEADER_SIZE + MAX_CMD_DATA"

text \<open>\<^verbatim>\<open>memset(cmd, 0, sizeof( *cmd))\<close>.\<close>

definition zero_cmd :: tpm_cmd where
  "zero_cmd = \<lparr>header = \<lparr>tag = 0, cmd_size = 0, cmd_code = 0\<rparr>, data = replicate MAX_CMD_DATA 0\<rparr>"

section \<open>Chip data\<close>

record tpm_chip_timeouts =
  msec_a :: u64
  msec_b :: u64
  msec_c :: u64
  msec_d :: u64

record tpm_chip_data =
  locality :: byte
  timeouts :: "tpm_chip_timeouts option"

definition tpm_timeouts :: tpm_chip_timeouts where
  "tpm_timeouts = \<lparr>msec_a = 750, msec_b = 2000, msec_c = 200, msec_d = 30\<rparr>"

definition tpm_chip_data_init :: tpm_chip_data where
  "tpm_chip_data_init = \<lparr>locality = -1, timeouts = Some tpm_timeouts\<rparr>"

section \<open>Platform interface\<close>

text \<open>
  \<open>xfer o n dout din p\<close>: a transfer of \<open>n\<close> bytes; \<open>dout\<close> is the buffer sent or \<open>None\<close> for
  a null pointer, \<open>din\<close> says whether a receive buffer is given. The result is the return
  code, the byte received at each position, and the new platform state.
\<close>

record 'p tpm_spi_ops =
  get_access :: "'p \<Rightarrow> int \<times> 'p"
  release_access :: "'p \<Rightarrow> 'p"
  start :: "'p \<Rightarrow> 'p"
  stop :: "'p \<Rightarrow> 'p"
  xfer :: "u32 \<Rightarrow> byte list option \<Rightarrow> bool \<Rightarrow> 'p \<Rightarrow> int \<times> (nat \<Rightarrow> byte) \<times> 'p"

text \<open>
  The context pointer \<^verbatim>\<open>priv\<close> is the platform state itself; the pointer \<^verbatim>\<open>ops\<close> is never null.
\<close>

record 'p tpm_spi_plat =
  ops :: "'p tpm_spi_ops"

record 'p timeout_ops =
  timeout_init_us :: "u32 \<Rightarrow> 'p \<Rightarrow> u64 \<times> 'p"
  timeout_elapsed :: "u64 \<Rightarrow> 'p \<Rightarrow> bool \<times> 'p"

section \<open>Global variables\<close>

text \<open>
  \<^verbatim>\<open>static struct interface_ops *interface\<close> points to a table of five functions. The only
  table of the program is \<^verbatim>\<open>fifo_ops\<close>, so the pointer is null or this one constant; the
  calls through it are \<open>interface_send\<close> and its siblings in \<open>TPM_Interface\<close>.
\<close>

datatype interface_ops = Fifo_Ops

record 'p tpm_lib =
  tpm_spidev :: "'p tpm_spi_plat option"
  tpm_timeout_ops :: "'p timeout_ops option"
  tpm_last_transport_error :: int
  interface :: "interface_ops option"
  plat :: 'p

definition tpm_lib_boot :: "'p \<Rightarrow> 'p tpm_lib" where
  "tpm_lib_boot p =
     \<lparr>tpm_spidev = None, tpm_timeout_ops = None, tpm_last_transport_error = 0,
      interface = None, plat = p\<rparr>"

section \<open>Lemmas\<close>

lemma length_hdr_bytes [simp]: "length (hdr_bytes bo h) = 10"
  by (simp add: hdr_bytes_def)

lemma list_of_10:
  assumes "length b = 10"
  shows "b = [b!0, b!1, b!2, b!3, b!4, b!5, b!6, b!7, b!8, b!9]"
  using assms by (auto simp: list_eq_iff_nth_eq less_Suc_eq numeral_eq_Suc)

lemma hdr_bytes_of_bytes [simp]:
  "length b = 10 \<Longrightarrow> hdr_bytes bo (hdr_of_bytes bo b) = b"
  by (subst (2) list_of_10) (simp_all add: hdr_bytes_def hdr_of_bytes_def)

lemma of_mem16_nth [simp]: "of_mem16 bo (mem16 bo x ! 0) (mem16 bo x ! Suc 0) = x"
  by (simp add: of_mem16_def mem16_def be16_def split: byte_order.split)

lemma of_mem32_nth [simp]:
  "of_mem32 bo (mem32 bo x ! 0) (mem32 bo x ! Suc 0) (mem32 bo x ! 2) (mem32 bo x ! 3) = x"
  by (simp add: of_mem32_def mem32_def be32_def split: byte_order.split)

lemma hdr_of_bytes_hdr_bytes [simp]: "hdr_of_bytes bo (hdr_bytes bo h) = h"
  by (simp add: hdr_of_bytes_def hdr_bytes_def nth_append)

lemma wf_zero_cmd [simp]: "wf_cmd zero_cmd"
  by (simp add: wf_cmd_def zero_cmd_def)

end
