(* ===== verification/TPM_SPI.thy ===== *)
theory TPM_SPI
  imports TPM_Types
begin

unbundle bit_operations_syntax

text \<open>
  \<^verbatim>\<open>src/tpm2_fifo_spi.c\<close>: reading and writing TPM registers over SPI. One register
  access is one bus transaction: take the bus, send a four-byte header, wait until the
  TPM ends its wait state, transfer the data, release the bus.

  The locale \<open>spi_bus\<close> is the protocol a platform expects of its client: which of its
  five functions may be called in which phase of the bus. It is interpreted on the
  recording platform \<open>logged\<close> over an arbitrary platform, so that what is proved of the
  phases holds for every platform.
\<close>

section \<open>The code\<close>

definition ENCODE_LIMIT :: byte where [simp]: "ENCODE_LIMIT = 64"
definition TPM_SPI_ADDR_PREFIX :: byte where [simp]: "TPM_SPI_ADDR_PREFIX = 0xD4"
definition RETRY_COUNT :: nat where [simp]: "RETRY_COUNT = 50"

datatype tpm_access_t = TPM_ACCESS_READ | TPM_ACCESS_WRITE

definition spidev_ops :: "('p tpm_lib, 'p tpm_spi_ops) op" where
  "spidev_ops = andthen get_state (\<lambda>s. andthen (deref (tpm_spidev s)) (\<lambda>d. ret (ops d)))"

definition tpm2_spi_transfer ::
  "byte list option \<Rightarrow> bool \<Rightarrow> byte \<Rightarrow> ('p tpm_lib, int \<times> (nat \<Rightarrow> byte)) op" where
  "tpm2_spi_transfer data_out data_in len =
     andthen spidev_ops (\<lambda>d. andthen get_state (\<lambda>s.
       let (r, din, p) = xfer d (ucast len) data_out data_in (plat s) in
       andthen (modify (\<lambda>s. s\<lparr>plat := p\<rparr>)) (\<lambda>_.
       andthen (if r \<noteq> 0 then modify (\<lambda>s. s\<lparr>tpm_last_transport_error := r\<rparr>) else ret ()) (\<lambda>_.
       ret (r, din)))))"

definition spi_header :: "u16 \<Rightarrow> tpm_access_t \<Rightarrow> byte \<Rightarrow> byte list" where
  "spi_header tpm_reg access len =
     [(if access = TPM_ACCESS_WRITE then 0x00 else 0x80) OR (len - 1),
      TPM_SPI_ADDR_PREFIX,
      ucast (drop_bit 8 tpm_reg),
      ucast tpm_reg]"

fun wait_state_poll :: "nat \<Rightarrow> ('p tpm_lib, int) op" where
  "wait_state_poll 0 = ret TPM_ERR_TIMEOUT"
| "wait_state_poll (Suc retries) =
     andthen (tpm2_spi_transfer (Some [0]) True 1) (\<lambda>(rc, byte).
       if rc \<noteq> 0 then ret TPM_ERR_TRANSFER
       else if byte 0 AND 0x01 \<noteq> 0 then ret TPM_SUCCESS
       else wait_state_poll retries)"

definition tpm2_spi_start_transaction ::
  "u16 \<Rightarrow> tpm_access_t \<Rightarrow> byte \<Rightarrow> ('p tpm_lib, int) op" where
  "tpm2_spi_start_transaction tpm_reg access len =
     (if len > ENCODE_LIMIT then ret TPM_INVALID_PARAM
      else andthen (tpm2_spi_transfer (Some (spi_header tpm_reg access len)) True 4)
        (\<lambda>(rc, header_response).
           if rc \<noteq> 0 then ret TPM_ERR_TRANSFER
           else if header_response 3 AND 0x01 \<noteq> 0 then ret TPM_SUCCESS
           else wait_state_poll RETRY_COUNT))"

definition tpm2_spi_end_transaction :: "('p tpm_lib, unit) op" where
  "tpm2_spi_end_transaction =
     andthen spidev_ops (\<lambda>d. andthen (modify (\<lambda>s. s\<lparr>plat := stop d (plat s)\<rparr>)) (\<lambda>_.
     andthen spidev_ops (\<lambda>d. modify (\<lambda>s. s\<lparr>plat := release_access d (plat s)\<rparr>))))"

definition tpm2_spi_init :: "('p tpm_lib, int) op" where
  "tpm2_spi_init =
     andthen spidev_ops (\<lambda>d. andthen get_state (\<lambda>s.
       let (rc, p) = get_access d (plat s) in
       andthen (modify (\<lambda>s. s\<lparr>plat := p\<rparr>)) (\<lambda>_.
       if rc \<noteq> 0 then
         andthen (modify (\<lambda>s. s\<lparr>tpm_last_transport_error := rc\<rparr>)) (\<lambda>_. ret TPM_ERR_TRANSFER)
       else
         andthen (modify (\<lambda>s. s\<lparr>plat := start d (plat s)\<rparr>)) (\<lambda>_. ret 0))))"

text \<open>The buffer \<open>val\<close> is sent on a write and filled on a read.\<close>

definition tpm2_fifo_io ::
  "u16 \<Rightarrow> tpm_access_t \<Rightarrow> byte \<Rightarrow> byte list \<Rightarrow> ('p tpm_lib, int \<times> byte list) op" where
  "tpm2_fifo_io tpm_reg access len val =
     andthen tpm2_spi_init (\<lambda>rc.
     if rc \<noteq> 0 then ret (rc, val) else
     andthen (tpm2_spi_start_transaction tpm_reg access len) (\<lambda>rc.
     if rc \<noteq> 0 then andthen tpm2_spi_end_transaction (\<lambda>_. ret (rc, val)) else
     andthen (tpm2_spi_transfer (if access = TPM_ACCESS_WRITE then Some val else None)
                (access = TPM_ACCESS_READ) len) (\<lambda>(rc, din).
     let val' = (if access = TPM_ACCESS_READ then map din [0..<unat len] else val) in
     if rc \<noteq> 0 then andthen tpm2_spi_end_transaction (\<lambda>_. ret (TPM_ERR_TRANSFER, val')) else
     andthen tpm2_spi_end_transaction (\<lambda>_. ret (TPM_SUCCESS, val')))))"

definition tpm2_fifo_write_byte :: "u16 \<Rightarrow> byte \<Rightarrow> ('p tpm_lib, int) op" where
  "tpm2_fifo_write_byte tpm_reg val =
     andthen (tpm2_fifo_io tpm_reg TPM_ACCESS_WRITE 1 [val]) (\<lambda>(rc, _). ret rc)"

definition tpm2_fifo_read_byte :: "u16 \<Rightarrow> byte \<Rightarrow> ('p tpm_lib, int \<times> byte) op" where
  "tpm2_fifo_read_byte tpm_reg val =
     andthen (tpm2_fifo_io tpm_reg TPM_ACCESS_READ 1 [val]) (\<lambda>(rc, v). ret (rc, v ! 0))"

definition tpm2_fifo_read_chunk :: "u16 \<Rightarrow> byte \<Rightarrow> byte list \<Rightarrow> ('p tpm_lib, int \<times> byte list) op" where
  "tpm2_fifo_read_chunk tpm_reg len val =
     (if len \<noteq> 1 \<and> len \<noteq> 2 \<and> len \<noteq> 4 then ret (TPM_INVALID_PARAM, val)
      else tpm2_fifo_io tpm_reg TPM_ACCESS_READ len val)"

section \<open>What a register access returns and what it leaves unchanged\<close>

text \<open>The globals no register access and no timer call touches.\<close>

definition same_globals :: "'p tpm_lib \<Rightarrow> 'p tpm_lib \<Rightarrow> bool" where
  "same_globals s t \<longleftrightarrow>
     tpm_spidev t = tpm_spidev s \<and> tpm_timeout_ops t = tpm_timeout_ops s \<and> interface t = interface s"

lemma same_globals_refl [simp, intro]: "same_globals s s"
  by (simp add: same_globals_def)

lemma same_globals_trans [trans]: "same_globals s t \<Longrightarrow> same_globals t u \<Longrightarrow> same_globals s u"
  by (simp add: same_globals_def)

lemma same_globals_spidev: "same_globals s t \<Longrightarrow> tpm_spidev t = tpm_spidev s"
  by (simp add: same_globals_def)

lemma same_globals_timeout_ops: "same_globals s t \<Longrightarrow> tpm_timeout_ops t = tpm_timeout_ops s"
  by (simp add: same_globals_def)

text \<open>
  How a return code and the recorded transport error go together: the error variable
  changes exactly when the platform reported an error, which is then nonzero and is
  turned into \<open>TPM_ERR_TRANSFER\<close>.
\<close>

definition transport_report :: "int \<Rightarrow> 'p tpm_lib \<Rightarrow> 'p tpm_lib \<Rightarrow> bool" where
  "transport_report rc s t \<longleftrightarrow>
     same_globals s t \<and>
     (if rc = TPM_ERR_TRANSFER then tpm_last_transport_error t \<noteq> 0
      else tpm_last_transport_error t = tpm_last_transport_error s)"

lemma wp_spidev_ops [wp_simps]:
  "wp h f spidev_ops Q s = (case tpm_spidev s of None \<Rightarrow> f | Some d \<Rightarrow> Q (ops d) s)"
  by (simp add: spidev_ops_def wp_simps split: option.split)

lemma wp_spi_transfer:
  "wp h f (tpm2_spi_transfer out inp len) Q s =
     (case tpm_spidev s of None \<Rightarrow> f
      | Some d \<Rightarrow> (case xfer (ops d) (ucast len) out inp (plat s) of (r, din, p) \<Rightarrow>
          Q (r, din) (s\<lparr>plat := p,
            tpm_last_transport_error := (if r \<noteq> 0 then r else tpm_last_transport_error s)\<rparr>)))"
  by (simp add: tpm2_spi_transfer_def wp_simps split: option.split prod.split)

lemma transfer_report:
  assumes "tpm_spidev s = Some d"
  shows "wp False False (tpm2_spi_transfer out inp len)
    (\<lambda>(r, din) t. transport_report (if r \<noteq> 0 then TPM_ERR_TRANSFER else 0) s t) s"
  using assms by (simp add: wp_spi_transfer transport_report_def same_globals_def split: prod.split)

lemma transport_report_trans:
  "transport_report 0 s t \<Longrightarrow> transport_report rc t u \<Longrightarrow> transport_report rc s u"
  by (auto simp: transport_report_def same_globals_def split: if_splits)

lemma transport_report_spidev: "transport_report rc s t \<Longrightarrow> tpm_spidev t = tpm_spidev s"
  by (simp add: transport_report_def same_globals_def)

text \<open>The return codes of a register access.\<close>

definition io_code :: "int \<Rightarrow> bool" where
  "io_code rc \<longleftrightarrow> rc \<in> {TPM_SUCCESS, TPM_ERR_TIMEOUT, TPM_ERR_TRANSFER}"

lemma io_code_simps [simp]: "io_code 0" "io_code (-3)" "io_code (-4)"
  by (simp_all add: io_code_def)

lemma io_code_nonpos: "io_code rc \<Longrightarrow> rc \<noteq> 0 \<Longrightarrow> rc < 0"
  by (auto simp: io_code_def)

lemma report_after:
  assumes "transport_report 0 s t"
    and "wp h f m (\<lambda>rc u. P rc \<and> transport_report rc t u) t"
  shows "wp h f m (\<lambda>rc u. P rc \<and> transport_report rc s u) t"
  by (rule wp_mono [OF assms(2)]) (blast intro: transport_report_trans [OF assms(1)])

lemma report_spidev:
  "transport_report rc s t \<Longrightarrow> tpm_spidev s = Some d \<Longrightarrow> tpm_spidev t = Some d"
  by (simp add: transport_report_def same_globals_def)

lemma wait_state_poll_report:
  "tpm_spidev s = Some d \<Longrightarrow>
    wp False False (wait_state_poll n) (\<lambda>rc t. io_code rc \<and> transport_report rc s t) s"
proof (induction n arbitrary: s)
  case 0
  then show ?case by (simp add: wp_simps transport_report_def)
next
  case (Suc n)
  show ?case
    unfolding wait_state_poll.simps
    by (rule wp_seq [OF transfer_report [OF Suc.prems]])
      (auto simp: wp_simps intro: report_after [OF _ Suc.IH] report_spidev [OF _ Suc.prems])
qed

lemma start_transaction_report:
  assumes "tpm_spidev s = Some d" and "len \<le> ENCODE_LIMIT"
  shows "wp False False (tpm2_spi_start_transaction reg access len)
    (\<lambda>rc t. io_code rc \<and> transport_report rc s t) s"
proof -
  have eq: "(ENCODE_LIMIT < len) = False" using assms(2) by simp
  show ?thesis
    unfolding tpm2_spi_start_transaction_def eq if_False
    by (rule wp_seq [OF transfer_report [OF assms(1)]])
      (auto simp: wp_simps simp del: RETRY_COUNT_def
        intro: report_after [OF _ wait_state_poll_report] report_spidev [OF _ assms(1)])
qed

lemma spi_init_report:
  assumes "tpm_spidev s = Some d"
  shows "wp False False tpm2_spi_init
    (\<lambda>rc t. rc \<in> {0, TPM_ERR_TRANSFER} \<and> transport_report rc s t) s"
  using assms
  by (auto simp: tpm2_spi_init_def wp_simps transport_report_def same_globals_def split: prod.split)

lemma wp_end_transaction:
  "wp h f tpm2_spi_end_transaction Q s =
     (case tpm_spidev s of None \<Rightarrow> f
      | Some d \<Rightarrow> Q () (s\<lparr>plat := release_access (ops d) (stop (ops d) (plat s))\<rparr>))"
  by (simp add: tpm2_spi_end_transaction_def wp_simps split: option.split)

lemma transport_report_plat [simp]:
  "transport_report rc s (t\<lparr>plat := p\<rparr>) = transport_report rc s t"
  by (simp add: transport_report_def same_globals_def)

lemma end_transaction_report:
  assumes "transport_report rc s t" and "tpm_spidev s = Some d"
    and "\<And>u. transport_report rc s u \<Longrightarrow> Q x u"
  shows "wp h f (andthen tpm2_spi_end_transaction (\<lambda>_. ret x)) Q t"
  using assms report_spidev [OF assms(1,2)] by (simp add: wp_simps wp_end_transaction)

text \<open>
  A register access of at most 64 bytes always returns, never faults once a transport is
  set, returns one of three codes, and records the platform's error exactly when it
  reports \<open>TPM_ERR_TRANSFER\<close>.
\<close>

lemma fifo_io_report:
  assumes "tpm_spidev s = Some d" and "len \<le> ENCODE_LIMIT"
  shows "wp False False (tpm2_fifo_io reg access len val)
    (\<lambda>(rc, v) t. io_code rc \<and> transport_report rc s t \<and>
       (rc = 0 \<longrightarrow> length v = (if access = TPM_ACCESS_READ then unat len else length val))) s"
proof -
  have data_phase: "wp False False (tpm2_spi_transfer out inp len)
      (\<lambda>(r, din) u. transport_report (if r \<noteq> 0 then TPM_ERR_TRANSFER else 0) s u) t"
    if "transport_report 0 s t" for t out inp
    by (rule wp_mono [OF transfer_report [OF report_spidev [OF that assms(1)]]])
      (auto intro: transport_report_trans [OF that])
  have start_phase: "wp False False (tpm2_spi_start_transaction reg access len)
      (\<lambda>rc u. io_code rc \<and> transport_report rc s u) t" if "transport_report 0 s t" for t
    by (rule report_after [OF that start_transaction_report [OF report_spidev [OF that assms(1)] assms(2)]])
  show ?thesis
    unfolding tpm2_fifo_io_def
  proof (rule wp_seq [OF spi_init_report [OF assms(1)]], rule wp_ifI, goal_cases)
    case (1 rc t)
    then show ?case by (auto simp: wp_simps)
  next
    case (2 rc t)
    then have t: "transport_report 0 s t" by simp
    show ?case
    proof (rule wp_seq [OF start_phase [OF t]], rule wp_ifI, goal_cases)
      case (1 rc u)
      then show ?case by (auto intro: end_transaction_report [OF _ assms(1)])
    next
      case (2 rc u)
      then have u: "transport_report 0 s u" by simp
      show ?case
        by (rule wp_seq [OF data_phase [OF u]])
          (auto simp: wp_if split: if_splits intro!: end_transaction_report [OF _ assms(1)])
    qed
  qed
qed

lemma fifo_io_no_transport:
  "tpm_spidev s = None \<Longrightarrow> tpm2_fifo_io reg access len val s = Some (Inl Null_Pointer)"
  by (simp add: tpm2_fifo_io_def tpm2_spi_init_def spidev_ops_def andthen_def get_state_def
      fail_def)

lemma fifo_io_returns:
  assumes "tpm2_fifo_io reg access len val s = Some (Inr ((rc, v), t))" and "len \<le> ENCODE_LIMIT"
  shows "io_code rc" and "transport_report rc s t"
proof -
  obtain d where d: "tpm_spidev s = Some d"
    using assms(1) fifo_io_no_transport [of s] by (cases "tpm_spidev s") auto
  from wp_returns [OF fifo_io_report [OF d assms(2)] assms(1)]
  show "io_code rc" and "transport_report rc s t" by simp_all
qed

lemma read_byte_returns:
  assumes "tpm2_fifo_read_byte reg old s = Some (Inr ((rc, v), t))"
  shows "io_code rc" and "transport_report rc s t"
  using assms
  by (auto simp: tpm2_fifo_read_byte_def andthen_eq_Some_Inr ret_def split: prod.splits
      intro: fifo_io_returns)

lemma write_byte_returns:
  assumes "tpm2_fifo_write_byte reg b s = Some (Inr (rc, t))"
  shows "io_code rc" and "transport_report rc s t"
  using assms
  by (auto simp: tpm2_fifo_write_byte_def andthen_eq_Some_Inr ret_def split: prod.splits
      intro: fifo_io_returns)

lemma read_chunk_returns:
  assumes "tpm2_fifo_read_chunk reg len old s = Some (Inr ((rc, v), t))"
  shows "rc = TPM_INVALID_PARAM \<and> t = s \<or> io_code rc \<and> transport_report rc s t"
  using assms
  by (auto simp: tpm2_fifo_read_chunk_def ret_def split: if_splits intro: fifo_io_returns)

text \<open>With a transport, single-byte accesses return.\<close>

lemma read_byte_total:
  assumes "tpm_spidev s = Some d"
  shows "wp False False (tpm2_fifo_read_byte reg old)
    (\<lambda>(rc, v) t. io_code rc \<and> transport_report rc s t) s"
  unfolding tpm2_fifo_read_byte_def
  by (rule wp_seq [OF fifo_io_report [OF assms]]) (auto simp: wp_simps)

lemma write_byte_total:
  assumes "tpm_spidev s = Some d"
  shows "wp False False (tpm2_fifo_write_byte reg b) (\<lambda>rc t. io_code rc \<and> transport_report rc s t) s"
  unfolding tpm2_fifo_write_byte_def
  by (rule wp_seq [OF fifo_io_report [OF assms]]) (auto simp: wp_simps)

section \<open>The bus protocol\<close>

datatype bus_phase = Bus_Idle | Bus_Owned | Bus_Active | Bus_Violated

text \<open>
  What a platform may rely on: access is taken on an idle bus, a transaction is started
  by the owner, bytes move only inside a transaction, a transaction is stopped before the
  bus is given back.
\<close>

locale spi_bus =
  fixes D :: "'p tpm_spi_ops" and phase :: "'p \<Rightarrow> bus_phase"
  assumes get_access_law: "phase p = Bus_Idle \<Longrightarrow>
      phase (snd (get_access D p)) = (if fst (get_access D p) = 0 then Bus_Owned else Bus_Idle)"
    and start_law: "phase p = Bus_Owned \<Longrightarrow> phase (start D p) = Bus_Active"
    and xfer_law: "phase p = Bus_Active \<Longrightarrow> phase (snd (snd (xfer D n out inp p))) = Bus_Active"
    and stop_law: "phase p = Bus_Active \<Longrightarrow> phase (stop D p) = Bus_Owned"
    and release_law: "phase p = Bus_Owned \<Longrightarrow> phase (release_access D p) = Bus_Idle"
begin

definition bus_at :: "bus_phase \<Rightarrow> 'p tpm_lib \<Rightarrow> bool" where
  "bus_at b s \<longleftrightarrow> tpm_spidev s = Some \<lparr>ops = D\<rparr> \<and> phase (plat s) = b"

lemma init_phase:
  "bus_at Bus_Idle s \<Longrightarrow>
     wp False False tpm2_spi_init (\<lambda>rc. bus_at (if rc = 0 then Bus_Active else Bus_Idle)) s"
  using get_access_law [of "plat s"]
  by (auto simp: tpm2_spi_init_def bus_at_def wp_simps start_law split: prod.split)

lemma transfer_phase:
  "bus_at Bus_Active s \<Longrightarrow>
     wp False False (tpm2_spi_transfer out inp len) (\<lambda>_. bus_at Bus_Active) s"
  using xfer_law [of "plat s" "ucast len" out inp]
  by (auto simp: wp_spi_transfer bus_at_def split: prod.split)

lemma end_phase:
  "bus_at Bus_Active s \<Longrightarrow> wp False False tpm2_spi_end_transaction (\<lambda>_. bus_at Bus_Idle) s"
  by (auto simp: wp_end_transaction bus_at_def stop_law release_law)

lemma poll_phase:
  "bus_at Bus_Active s \<Longrightarrow> wp False False (wait_state_poll n) (\<lambda>_. bus_at Bus_Active) s"
proof (induction n arbitrary: s)
  case 0
  then show ?case by (simp add: wp_simps)
next
  case (Suc n)
  show ?case
    unfolding wait_state_poll.simps
    by (rule wp_seq [OF transfer_phase [OF Suc.prems]]) (auto simp: wp_simps intro: Suc.IH)
qed

lemma start_transaction_phase:
  assumes "bus_at Bus_Active s"
  shows "wp False False (tpm2_spi_start_transaction reg access len) (\<lambda>_. bus_at Bus_Active) s"
  unfolding tpm2_spi_start_transaction_def
  using assms
  by (auto simp: wp_if wp_ret simp del: RETRY_COUNT_def
      intro!: wp_seq [OF transfer_phase [OF assms]] poll_phase)

lemma end_phase_ret:
  "bus_at Bus_Active s \<Longrightarrow>
     wp False False (andthen tpm2_spi_end_transaction (\<lambda>_. ret x)) (\<lambda>_. bus_at Bus_Idle) s"
  unfolding wp_andthen by (rule wp_mono [OF end_phase]) (simp_all add: wp_ret)

lemma fifo_io_phase:
  assumes "bus_at Bus_Idle s"
  shows "wp False False (tpm2_fifo_io reg access len val) (\<lambda>_. bus_at Bus_Idle) s"
  unfolding tpm2_fifo_io_def
proof (rule wp_seq [OF init_phase [OF assms]], rule wp_ifI, goal_cases)
  case (1 rc t)
  then show ?case by (simp add: wp_ret)
next
  case (2 rc t)
  then have t: "bus_at Bus_Active t" by simp
  show ?case
    by (rule wp_seq [OF start_transaction_phase [OF t]], rule wp_ifI)
      (auto simp: Let_def wp_if intro!: end_phase_ret wp_seq [OF transfer_phase])
qed

end

text \<open>
  A platform that records what is asked of it, over any platform \<open>D\<close>, and the codes that
  \<^verbatim>\<open>get_access\<close> and \<^verbatim>\<open>xfer\<close> return.
\<close>

datatype bus_event = Ev_Get int | Ev_Start | Ev_Xfer "byte list option" nat int | Ev_Stop | Ev_Release

definition logged :: "'p tpm_spi_ops \<Rightarrow> ('p \<times> bus_event list) tpm_spi_ops" where
  "logged D =
     \<lparr>get_access = (\<lambda>(p, l). let (rc, q) = get_access D p in (rc, q, l @ [Ev_Get rc])),
      release_access = (\<lambda>(p, l). (release_access D p, l @ [Ev_Release])),
      start = (\<lambda>(p, l). (start D p, l @ [Ev_Start])),
      stop = (\<lambda>(p, l). (stop D p, l @ [Ev_Stop])),
      xfer = (\<lambda>n out inp (p, l). let (rc, din, q) = xfer D n out inp p
                in (rc, din, q, l @ [Ev_Xfer out (unat n) rc]))\<rparr>"

fun bus_step :: "bus_phase \<Rightarrow> bus_event \<Rightarrow> bus_phase" where
  "bus_step Bus_Idle (Ev_Get rc) = (if rc = 0 then Bus_Owned else Bus_Idle)"
| "bus_step Bus_Owned Ev_Start = Bus_Active"
| "bus_step Bus_Active (Ev_Xfer _ _ _) = Bus_Active"
| "bus_step Bus_Active Ev_Stop = Bus_Owned"
| "bus_step Bus_Owned Ev_Release = Bus_Idle"
| "bus_step _ _ = Bus_Violated"

definition bus_run :: "bus_event list \<Rightarrow> bus_phase" where
  "bus_run l = foldl bus_step Bus_Idle l"

interpretation logged_bus: spi_bus "logged D" "\<lambda>(p, l). bus_run l" for D
  by unfold_locales (auto simp: logged_def bus_run_def split: prod.splits)

section \<open>The transactions on the wire\<close>

text \<open>
  The events of one register access, by its return code: a full transaction with \<open>k\<close>
  wait-state polls, one given up after 50 polls, or one cut short by a call of the platform
  that returns a nonzero code.
\<close>

definition wait_poll :: "int \<Rightarrow> bus_event" where
  "wait_poll c = Ev_Xfer (Some [0]) 1 c"

definition header_phase :: "u16 \<Rightarrow> tpm_access_t \<Rightarrow> byte \<Rightarrow> int \<Rightarrow> bus_event" where
  "header_phase reg access len c = Ev_Xfer (Some (spi_header reg access len)) 4 c"

definition data_phase :: "tpm_access_t \<Rightarrow> byte \<Rightarrow> byte list \<Rightarrow> int \<Rightarrow> bus_event" where
  "data_phase access len val c =
     Ev_Xfer (if access = TPM_ACCESS_WRITE then Some val else None) (unat len) c"

definition opened :: "u16 \<Rightarrow> tpm_access_t \<Rightarrow> byte \<Rightarrow> nat \<Rightarrow> bus_event list" where
  "opened reg access len k = [Ev_Get 0, Ev_Start, header_phase reg access len 0] @ replicate k (wait_poll 0)"

definition closed :: "bus_event list" where
  "closed = [Ev_Stop, Ev_Release]"

definition io_trace ::
  "u16 \<Rightarrow> tpm_access_t \<Rightarrow> byte \<Rightarrow> byte list \<Rightarrow> int \<Rightarrow> bus_event list \<Rightarrow> bool" where
  "io_trace reg access len val rc tr \<longleftrightarrow>
     (if rc = TPM_SUCCESS then
        (\<exists>k \<le> RETRY_COUNT. tr = opened reg access len k @ [data_phase access len val 0] @ closed)
      else if rc = TPM_ERR_TIMEOUT then tr = opened reg access len RETRY_COUNT @ closed
      else rc = TPM_ERR_TRANSFER \<and> (\<exists>c. c \<noteq> 0 \<and>
        (tr = [Ev_Get c] \<or>
         tr = [Ev_Get 0, Ev_Start, header_phase reg access len c] @ closed \<or>
         (\<exists>k < RETRY_COUNT. tr = opened reg access len k @ [wait_poll c] @ closed) \<or>
         (\<exists>k \<le> RETRY_COUNT. tr = opened reg access len k @ [data_phase access len val c] @ closed))))"

text \<open>
  The codes that the platform has returned, and the last nonzero one; the library keeps
  exactly that in \<^verbatim>\<open>tpm_last_transport_error\<close>.
\<close>

fun codes :: "bus_event list \<Rightarrow> int list" where
  "codes [] = []"
| "codes (Ev_Get c # l) = c # codes l"
| "codes (Ev_Xfer _ _ c # l) = c # codes l"
| "codes (_ # l) = codes l"

definition last_error :: "int \<Rightarrow> bus_event list \<Rightarrow> int" where
  "last_error e l = last (e # filter (\<lambda>c. c \<noteq> 0) (codes l))"

lemma codes_append [simp]: "codes (l @ l') = codes l @ codes l'"
  by (induction l rule: codes.induct) simp_all

lemma last_error_Nil [simp]: "last_error e [] = e"
  by (simp add: last_error_def)

lemma last_error_append: "last_error e (l @ l') = last_error (last_error e l) l'"
  by (simp add: last_error_def)

lemma last_error_snoc [simp]:
  "last_error e (l @ [Ev_Get c]) = (if c = 0 then last_error e l else c)"
  "last_error e (l @ [Ev_Get c, Ev_Start]) = (if c = 0 then last_error e l else c)"
  "last_error e (l @ [Ev_Xfer out n c]) = (if c = 0 then last_error e l else c)"
  "last_error e (l @ [Ev_Stop, Ev_Release]) = last_error e l"
  by (simp_all add: last_error_def)

text \<open>The library runs on the recording platform, the log is \<open>l\<close> and the error that of the log.\<close>

definition log_at :: "'p tpm_spi_ops \<Rightarrow> int \<Rightarrow> bus_event list \<Rightarrow> ('p \<times> bus_event list) tpm_lib \<Rightarrow> bool" where
  "log_at D e l s \<longleftrightarrow> tpm_spidev s = Some \<lparr>ops = logged D\<rparr> \<and> snd (plat s) = l \<and>
     tpm_last_transport_error s = last_error e l"

lemma logged_simps [simp]:
  "get_access (logged D) (p, l) = (case get_access D p of (rc, q) \<Rightarrow> (rc, q, l @ [Ev_Get rc]))"
  "release_access (logged D) (p, l) = (release_access D p, l @ [Ev_Release])"
  "start (logged D) (p, l) = (start D p, l @ [Ev_Start])"
  "stop (logged D) (p, l) = (stop D p, l @ [Ev_Stop])"
  "xfer (logged D) n out inp (p, l) =
     (case xfer D n out inp p of (rc, din, q) \<Rightarrow> (rc, din, q, l @ [Ev_Xfer out (unat n) rc]))"
  by (simp_all add: logged_def)

lemma transfer_log:
  assumes "log_at D e l s"
  shows "wp False False (tpm2_spi_transfer out inp len)
    (\<lambda>(rc, _). log_at D e (l @ [Ev_Xfer out (unat len) rc])) s"
proof -
  obtain p where "plat s = (p, l)" using assms by (cases "plat s") (auto simp: log_at_def)
  then show ?thesis using assms
    by (auto simp: wp_spi_transfer log_at_def split: prod.split)
qed

lemma init_log:
  assumes "log_at D e l s"
  shows "wp False False tpm2_spi_init
    (\<lambda>rc t. if rc = 0 then log_at D e (l @ [Ev_Get 0, Ev_Start]) t
          else rc = TPM_ERR_TRANSFER \<and> (\<exists>c. c \<noteq> 0 \<and> log_at D e (l @ [Ev_Get c]) t)) s"
proof -
  obtain p where "plat s = (p, l)" using assms by (cases "plat s") (auto simp: log_at_def)
  then show ?thesis using assms
    by (auto simp: tpm2_spi_init_def wp_simps log_at_def split: prod.split)
qed

lemma end_log:
  assumes "log_at D e l s" and "\<And>t. log_at D e (l @ closed) t \<Longrightarrow> Q x t"
  shows "wp False False (andthen tpm2_spi_end_transaction (\<lambda>_. ret x)) Q s"
proof -
  obtain p where "plat s = (p, l)" using assms(1) by (cases "plat s") (auto simp: log_at_def)
  then show ?thesis using assms
    by (auto simp: wp_andthen wp_ret wp_end_transaction log_at_def closed_def)
qed

text \<open>How the wait-state polls end: ready, an error of the platform, or out of retries.\<close>

definition polled :: "'p tpm_spi_ops \<Rightarrow> int \<Rightarrow> bus_event list \<Rightarrow> nat \<Rightarrow> int \<Rightarrow> ('p \<times> bus_event list) tpm_lib \<Rightarrow> bool" where
  "polled D e l n rc t \<longleftrightarrow>
     (if rc = TPM_SUCCESS then \<exists>k \<le> n. log_at D e (l @ replicate k (wait_poll 0)) t
      else if rc = TPM_ERR_TIMEOUT then log_at D e (l @ replicate n (wait_poll 0)) t
      else rc = TPM_ERR_TRANSFER \<and>
        (\<exists>c k. c \<noteq> 0 \<and> k < n \<and> log_at D e (l @ replicate k (wait_poll 0) @ [wait_poll c]) t))"

lemma polled_Suc: "polled D e (l @ [wait_poll 0]) n rc t \<Longrightarrow> polled D e l (Suc n) rc t"
proof (cases "rc = TPM_SUCCESS \<or> rc = TPM_ERR_TIMEOUT")
  case True
  then show "polled D e (l @ [wait_poll 0]) n rc t \<Longrightarrow> ?thesis"
    by (force simp: polled_def intro: exI [of _ "Suc _"])
next
  case False
  assume "polled D e (l @ [wait_poll 0]) n rc t"
  with False obtain c k where "rc = TPM_ERR_TRANSFER" "c \<noteq> 0" "k < n"
    "log_at D e (l @ replicate (Suc k) (wait_poll 0) @ [wait_poll c]) t" by (auto simp: polled_def)
  then show ?thesis unfolding polled_def by (auto simp del: replicate_Suc)
qed

lemma poll_log: "log_at D e l s \<Longrightarrow> wp False False (wait_state_poll n) (polled D e l n) s"
proof (induction n arbitrary: l s)
  case 0
  then show ?case by (simp add: wp_simps polled_def)
next
  case (Suc n)
  show ?case
    unfolding wait_state_poll.simps
  proof (rule wp_seq [OF transfer_log [OF Suc.prems]], clarify, intro wp_ifI, goal_cases)
    case (1 rc din t)
    then have "log_at D e (l @ replicate 0 (wait_poll 0) @ [wait_poll rc]) t" by (simp add: wait_poll_def)
    with 1 show ?case unfolding wp_ret polled_def by (auto simp del: replicate_0)
  next
    case (2 rc din t)
    then have "log_at D e (l @ replicate 1 (wait_poll 0)) t" by (simp add: wait_poll_def)
    then show ?case unfolding wp_ret polled_def by (auto intro: exI [of _ 1])
  next
    case (3 rc din t)
    then have "log_at D e (l @ [wait_poll 0]) t" by (simp add: wait_poll_def)
    then show ?case by (rule wp_mono [OF Suc.IH polled_Suc])
  qed
qed

lemma start_transaction_log:
  assumes "log_at D e l s" and "len \<le> ENCODE_LIMIT"
  shows "wp False False (tpm2_spi_start_transaction reg access len)
    (\<lambda>rc t. polled D e (l @ [header_phase reg access len 0]) RETRY_COUNT rc t \<or>
       rc = TPM_ERR_TRANSFER \<and> (\<exists>c. c \<noteq> 0 \<and> log_at D e (l @ [header_phase reg access len c]) t)) s"
proof -
  have eq: "(ENCODE_LIMIT < len) = False" using assms(2) by simp
  show ?thesis
    unfolding tpm2_spi_start_transaction_def eq if_False
  proof (rule wp_seq [OF transfer_log [OF assms(1)]], clarify, intro wp_ifI, goal_cases)
    case (1 rc resp t)
    then show ?case by (auto simp: wp_ret header_phase_def)
  next
    case (2 rc resp t)
    then have "log_at D e ((l @ [header_phase reg access len 0]) @ replicate 0 (wait_poll 0)) t"
      by (simp add: header_phase_def)
    then show ?case unfolding wp_ret polled_def by (auto simp del: replicate_0)
  next
    case (3 rc resp t)
    then have "log_at D e (l @ [header_phase reg access len 0]) t" by (simp add: header_phase_def)
    then show ?case by (rule wp_mono [OF poll_log]) simp
  qed
qed

text \<open>Every register access leaves exactly the events \<open>io_trace\<close> allows.\<close>

lemma fifo_io_log:
  assumes "log_at D e l s" and "len \<le> ENCODE_LIMIT"
  shows "wp False False (tpm2_fifo_io reg access len val)
    (\<lambda>(rc, v) t. \<exists>tr. io_trace reg access len val rc tr \<and> log_at D e (l @ tr) t) s"
  unfolding tpm2_fifo_io_def
proof (rule wp_seq [OF init_log [OF assms(1)]], rule wp_ifI, goal_cases)
  case (1 rc t)
  then show ?case by (auto simp: wp_ret io_trace_def)
next
  case (2 rc t)
  then have t: "log_at D e (l @ [Ev_Get 0, Ev_Start]) t" by simp
  have stop: "wp False False (andthen tpm2_spi_end_transaction (\<lambda>_. ret (rc', v)))
      (\<lambda>(rc, v) t. \<exists>tr. io_trace reg access len val rc tr \<and> log_at D e (l @ tr) t) w"
    if "log_at D e (l @ tr) w" and "io_trace reg access len val rc' (tr @ closed)" for w rc' v tr
    by (rule end_log [OF that(1)]) (use that(2) in auto)
  show ?case
  proof (rule wp_seq [OF start_transaction_log [OF t assms(2)]], rule wp_ifI, goal_cases)
    case (1 rc u)
    then consider "rc = TPM_ERR_TIMEOUT" "log_at D e (l @ opened reg access len RETRY_COUNT) u"
      | c k where "rc = TPM_ERR_TRANSFER" "c \<noteq> 0" "k < RETRY_COUNT" "log_at D e (l @ opened reg access len k @ [wait_poll c]) u"
      | c where "rc = TPM_ERR_TRANSFER" "c \<noteq> 0" "log_at D e (l @ [Ev_Get 0, Ev_Start, header_phase reg access len c]) u"
      by (auto simp: polled_def opened_def simp del: RETRY_COUNT_def split: if_splits)
    then show ?case
      by cases (erule stop, (auto simp: io_trace_def simp del: RETRY_COUNT_def)[1])+
  next
    case (2 rc u)
    then obtain k where k: "k \<le> RETRY_COUNT" and u: "log_at D e (l @ opened reg access len k) u"
      by (auto simp: polled_def opened_def simp del: RETRY_COUNT_def)
    show ?case
    proof (rule wp_seq [OF transfer_log [OF u]], clarify, unfold Let_def, intro wp_ifI, goal_cases)
      case (1 r din w)
      then have "log_at D e (l @ opened reg access len k @ [data_phase access len val r]) w" by (simp add: data_phase_def)
      then show ?case by (rule stop) (use 1 k in \<open>auto simp: io_trace_def simp del: RETRY_COUNT_def\<close>)
    next
      case (2 r din w)
      then have "log_at D e (l @ opened reg access len k @ [data_phase access len val 0]) w" by (simp add: data_phase_def)
      then show ?case by (rule stop) (use k in \<open>auto simp: io_trace_def simp del: RETRY_COUNT_def\<close>)
    qed
  qed
qed

text \<open>The access reports a transfer error exactly if the platform has returned a nonzero code.\<close>

lemma io_trace_codes:
  assumes "io_trace reg access len val rc tr"
  shows "rc = TPM_ERR_TRANSFER \<longleftrightarrow> (\<exists>c \<in> set (codes tr). c \<noteq> 0)"
proof -
  have "codes (replicate k (wait_poll 0)) = replicate k 0" for k
    by (induction k) (simp_all add: wait_poll_def)
  then have "codes (opened reg access len k) = 0 # 0 # replicate k 0" for k
    by (simp add: opened_def header_phase_def)
  then show ?thesis
    using assms
    by (auto simp: io_trace_def closed_def header_phase_def wait_poll_def data_phase_def simp del: RETRY_COUNT_def split: if_splits)
qed

section \<open>The transaction header\<close>

text \<open>What a TPM takes from the four header bytes: direction, length and register.\<close>

definition decode_header :: "byte list \<Rightarrow> bool \<times> nat \<times> byte \<times> u16" where
  "decode_header h = (bit (h ! 0) 7, unat (h ! 0 AND 0x3F) + 1, h ! 1, of_be16 (h ! 2) (h ! 3))"

lemma header_bits:
  fixes x :: byte
  assumes "unat x < 64"
  shows "x AND 0x3F = x" "(0x80 OR x) AND 0x3F = x" "\<not> bit x 7" "bit (0x80 OR x) 7"
proof -
  have m: "(0x3F :: byte) = mask 6" by (simp add: mask_eq_exp_minus_1)
  have tb: "take_bit 6 x = x"
    using assms by (simp add: word_unat_eq_iff unsigned_take_bit_eq take_bit_nat_eq_self)
  then show a: "x AND 0x3F = x" unfolding m by (simp add: take_bit_eq_mask)
  have b: "\<not> bit x n" if "6 \<le> n" for n using tb that by (metis bit_take_bit_iff not_less)
  show "(0x80 OR x) AND 0x3F = x"
    by (subst bit.conj_disj_distrib2) (simp add: a)
  show "\<not> bit x 7" using b by simp
  show "bit (0x80 OR x) 7" by (simp add: bit_or_iff)
qed

lemma decode_spi_header:
  assumes "0 < len" and "len \<le> ENCODE_LIMIT"
  shows "decode_header (spi_header reg access len) = (access = TPM_ACCESS_READ, unat len, TPM_SPI_ADDR_PREFIX, reg)"
proof -
  have "1 \<le> unat len" using assms(1) by (simp add: word_less_nat_alt)
  moreover have "unat len \<le> 64" using assms(2) by (simp add: word_le_nat_alt)
  ultimately have "unat (len - 1) = unat len - 1" "unat (len - 1) < 64" "unat len - 1 + 1 = unat len"
    by (simp_all add: unat_sub_if' word_le_nat_alt)
  with header_bits [of "len - 1"] show ?thesis
    by (cases access) (simp_all add: decode_header_def spi_header_def)
qed

end
