(* ===== verification/TPM_Timer.thy ===== *)
theory TPM_Timer
  imports TPM_Types "HOL-Library.Signed_Division"
begin

unbundle bit_operations_syntax

text \<open>
  \<^verbatim>\<open>src/timer/posix_timer_ops.c\<close>: the timer used when the library is built with
  \<^verbatim>\<open>LIB_TIMER=POSIX\<close>. \<^verbatim>\<open>clock_gettime(CLOCK_MONOTONIC, \<dots>)\<close> is the parameter \<open>clk\<close>. The
  locale \<open>deadline_timer\<close> is the contract the polling loops of the FIFO layer rely on;
  the POSIX timer meets it for every clock.
\<close>

section \<open>The POSIX timer\<close>

record timespec =
  tv_sec :: int
  tv_nsec :: int

definition get_time_us :: "('p \<Rightarrow> timespec \<times> 'p) \<Rightarrow> 'p \<Rightarrow> u64 \<times> 'p" where
  "get_time_us clk p =
     (let (ts, p') = clk p
      in (word_of_int (tv_sec ts) * 1000000 + word_of_int (tv_nsec ts sdiv 1000), p'))"

definition get_timer_value_impl :: "('p \<Rightarrow> timespec \<times> 'p) \<Rightarrow> 'p \<Rightarrow> u32 \<times> 'p" where
  "get_timer_value_impl clk p =
     (let (t, p') = get_time_us clk p in (ucast (t AND 0xFFFFFFFF), p'))"

definition timeout_init_us_impl :: "('p \<Rightarrow> timespec \<times> 'p) \<Rightarrow> u32 \<Rightarrow> 'p \<Rightarrow> u64 \<times> 'p" where
  "timeout_init_us_impl clk usec p =
     (let (t, p') = get_time_us clk p in (t + ucast usec, p'))"

definition timeout_elapsed_impl :: "('p \<Rightarrow> timespec \<times> 'p) \<Rightarrow> u64 \<Rightarrow> 'p \<Rightarrow> bool \<times> 'p" where
  "timeout_elapsed_impl clk expiry_time_us p =
     (let (t, p') = get_time_us clk p in (t \<ge> expiry_time_us, p'))"

definition tpm_lib_timeout_ops :: "('p \<Rightarrow> timespec \<times> 'p) \<Rightarrow> 'p timeout_ops" where
  "tpm_lib_timeout_ops clk =
     \<lparr>timeout_init_us = timeout_init_us_impl clk, timeout_elapsed = timeout_elapsed_impl clk\<rparr>"

section \<open>The timer contract\<close>

locale deadline_timer =
  fixes T :: "'p timeout_ops" and now :: "'p \<Rightarrow> u64"
  assumes init_law: "fst (timeout_init_us T us p) = now p + ucast us"
    and elapsed_law: "fst (timeout_elapsed T d p) \<longleftrightarrow> d \<le> now p"
begin

text \<open>A deadline that does not wrap around is not reported before its time is over.\<close>

lemma not_early:
  assumes "fst (timeout_elapsed T (fst (timeout_init_us T us p)) q)"
    and "unat (now p) + unat us < 2 ^ 64"
  shows "unat (now p) + unat us \<le> unat (now q)"
proof -
  have "unat (now p + ucast us) = unat (now p) + unat us"
    using assms(2) by (simp add: unat_word_ariths)
  moreover have "now p + ucast us \<le> now q"
    using assms(1) by (simp add: init_law elapsed_law)
  ultimately show ?thesis by (simp add: word_le_nat_alt)
qed

lemma not_late: "now p + ucast us \<le> now q \<Longrightarrow>
    fst (timeout_elapsed T (fst (timeout_init_us T us p)) q)"
  by (simp add: init_law elapsed_law)

end

interpretation posix: deadline_timer "tpm_lib_timeout_ops clk" "\<lambda>p. fst (get_time_us clk p)" for clk
  by unfold_locales
    (simp_all add: tpm_lib_timeout_ops_def timeout_init_us_impl_def timeout_elapsed_impl_def
      split: prod.split)

text \<open>The clock in microseconds, for the values \<^verbatim>\<open>clock_gettime\<close> can return.\<close>

lemma uint_u64_id: "0 \<le> k \<Longrightarrow> k < 2 ^ 64 \<Longrightarrow> uint (word_of_int k :: u64) = k"
  by (simp add: uint_word_of_int_eq take_bit_int_eq_self)

lemma get_time_us_exact:
  assumes "clk p = (ts, p')" and "0 \<le> tv_sec ts" and "0 \<le> tv_nsec ts" and "tv_nsec ts < 10 ^ 9"
    and "tv_sec ts < 2 ^ 40"
  shows "uint (fst (get_time_us clk p)) = tv_sec ts * 10 ^ 6 + tv_nsec ts div 1000"
proof -
  have sd: "tv_nsec ts sdiv 1000 = tv_nsec ts div 1000"
    using assms(3) by (cases "tv_nsec ts = 0") (simp_all add: signed_divide_int_def sgn_if)
  have w: "word_of_int (tv_sec ts) * 1000000 + word_of_int (tv_nsec ts div 1000)
      = (word_of_int (tv_sec ts * 10 ^ 6 + tv_nsec ts div 1000) :: u64)"
    by simp
  have "tv_nsec ts div 1000 < 10 ^ 6" using assms(4) by simp
  moreover have "tv_sec ts * 10 ^ 6 \<le> (2 ^ 40 - 1) * 10 ^ 6" using assms(5) by simp
  ultimately have "tv_sec ts * 10 ^ 6 + tv_nsec ts div 1000 < 2 ^ 64" by simp
  moreover have "0 \<le> tv_sec ts * 10 ^ 6 + tv_nsec ts div 1000" using assms(2,3) by simp
  ultimately have "uint (word_of_int (tv_sec ts * 10 ^ 6 + tv_nsec ts div 1000) :: u64)
      = tv_sec ts * 10 ^ 6 + tv_nsec ts div 1000"
    by (intro uint_u64_id)
  then show ?thesis
    by (simp only: get_time_us_def assms(1) Let_def prod.case fst_conv sd w)
qed

end
