(* ===== verification/TPM_FIFO.thy ===== *)
theory TPM_FIFO
  imports TPM_SPI TPM_Timer
begin

unbundle bit_operations_syntax

text \<open>
  \<^verbatim>\<open>src/tpm2_fifo.c\<close>: the FIFO interface of the TPM, on top of the register accesses.
  Log output (\<^verbatim>\<open>INFO\<close>, \<^verbatim>\<open>ERROR\<close>, \<^verbatim>\<open>output_tpm_status\<close>) is left out, with its arguments: the
  message of \<^verbatim>\<open>tpm2_fifo_release_locality\<close> about a locality that cannot be released reads
  \<^verbatim>\<open>chip_data->locality\<close>, so with that message compiled in \<^verbatim>\<open>chip_data\<close> must not be null. Every other
  statement is translated. A local variable that the C code declares without a value and
  hands to a read starts as 0 here; on success the read overwrites it.
\<close>

section \<open>Registers and timers\<close>

definition LOCALITY_START_ADDRESS :: "byte \<Rightarrow> u16" where
  "LOCALITY_START_ADDRESS y = 0x1000 * ucast y"

text \<open>\<^verbatim>\<open>tpm_base_addr + TPM_FIFO_REG_\<dots>\<close>, a 32-bit sum passed as \<^verbatim>\<open>uint16_t\<close>.\<close>

definition reg_addr :: "u16 \<Rightarrow> u32 \<Rightarrow> u16" where
  "reg_addr base reg = ucast (ucast base + reg)"

definition call_timeout_init_us :: "u32 \<Rightarrow> ('p tpm_lib, u64) op" where
  "call_timeout_init_us usec =
     andthen get_state (\<lambda>s. andthen (deref (tpm_timeout_ops s)) (\<lambda>t.
       let (d, p) = timeout_init_us t usec (plat s) in
       andthen (modify (\<lambda>s. s\<lparr>plat := p\<rparr>)) (\<lambda>_. ret d)))"

definition call_timeout_elapsed :: "u64 \<Rightarrow> ('p tpm_lib, bool) op" where
  "call_timeout_elapsed cnt =
     andthen get_state (\<lambda>s. andthen (deref (tpm_timeout_ops s)) (\<lambda>t.
       let (b, p) = timeout_elapsed t cnt (plat s) in
       andthen (modify (\<lambda>s. s\<lparr>plat := p\<rparr>)) (\<lambda>_. ret b)))"

section \<open>The functions of the interface\<close>

definition tpm2_get_info :: "tpm_chip_data option \<Rightarrow> byte \<Rightarrow> ('p tpm_lib, int) op" where
  "tpm2_get_info chip_data loc =
     (let tpm_base_addr = LOCALITY_START_ADDRESS loc in
      andthen (tpm2_fifo_read_chunk (reg_addr tpm_base_addr TPM_FIFO_REG_VENDID) 4 [0, 0, 0, 0])
        (\<lambda>(err, vid_did).
      if err < 0 then ret err else
      andthen (tpm2_fifo_read_byte (reg_addr tpm_base_addr TPM_FIFO_REG_REVID) 0) (\<lambda>(err, revision).
      if err < 0 then ret err else
      ret TPM_SUCCESS)))"

text \<open>One round of the \<^verbatim>\<open>do \<dots> while\<close> loop; the loop variable is \<^verbatim>\<open>*status\<close>.\<close>

definition wait_body ::
  "u16 \<Rightarrow> byte \<Rightarrow> u64 \<Rightarrow> byte \<Rightarrow> ('p tpm_lib, (int \<times> byte) + byte) op" where
  "wait_body reg bits timeout_delay status =
     andthen (tpm2_fifo_read_byte reg status) (\<lambda>(err, status).
     if err < 0 then ret (Inl (err, status)) else
     if status AND bits = bits then ret (Inl (TPM_SUCCESS, status)) else
     andthen (call_timeout_elapsed timeout_delay) (\<lambda>elapsed.
     if elapsed then ret (Inl (TPM_ERR_TIMEOUT, status)) else ret (Inr status)))"

definition tpm2_wait_reg_bits ::
  "u16 \<Rightarrow> byte \<Rightarrow> u64 \<Rightarrow> byte \<Rightarrow> ('p tpm_lib, int \<times> byte) op" where
  "tpm2_wait_reg_bits reg bits tmo status =
     andthen (call_timeout_init_us (ucast (tmo * 1000))) (\<lambda>timeout_delay.
     loop (wait_body reg bits timeout_delay) status)"

definition tpm2_fifo_request_access ::
  "tpm_chip_data option \<Rightarrow> byte \<Rightarrow> ('p tpm_lib, int \<times> tpm_chip_data option) op" where
  "tpm2_fifo_request_access chip_data loc =
     (let tpm_base_addr = LOCALITY_START_ADDRESS loc in
      andthen (tpm2_fifo_write_byte (reg_addr tpm_base_addr TPM_FIFO_REG_ACCESS) TPM_ACCESS_REQUEST_USE)
        (\<lambda>err.
      if err < 0 then ret (err, chip_data) else
      andthen (deref chip_data) (\<lambda>chip.
      andthen (deref (timeouts chip)) (\<lambda>tmo.
      andthen (tpm2_wait_reg_bits (reg_addr tpm_base_addr TPM_FIFO_REG_ACCESS)
                 TPM_ACCESS_ACTIVE_LOCALITY (msec_a tmo) 0) (\<lambda>(err, status).
      if err = 0 then ret (TPM_SUCCESS, Some (chip\<lparr>locality := loc\<rparr>))
      else ret (err, chip_data))))))"

definition tpm2_fifo_release_locality ::
  "tpm_chip_data option \<Rightarrow> byte \<Rightarrow> ('p tpm_lib, int) op" where
  "tpm2_fifo_release_locality chip_data loc =
     (let tpm_base_addr = LOCALITY_START_ADDRESS loc in
      andthen (tpm2_fifo_read_byte (reg_addr tpm_base_addr TPM_FIFO_REG_ACCESS) 0) (\<lambda>(err, buf).
      if err < 0 then ret err else
      if buf AND (TPM_ACCESS_REQUEST_PENDING OR TPM_ACCESS_VALID) \<noteq> 0
      then tpm2_fifo_write_byte (reg_addr tpm_base_addr TPM_FIFO_REG_ACCESS)
             TPM_ACCESS_RELINQUISH_LOCALITY
      else ret TPM_ERR_RESPONSE))"

definition tpm2_fifo_prepare :: "tpm_chip_data option \<Rightarrow> ('p tpm_lib, int) op" where
  "tpm2_fifo_prepare chip_data =
     andthen (deref chip_data) (\<lambda>chip.
     let tpm_base_addr = LOCALITY_START_ADDRESS (locality chip) in
     andthen (tpm2_fifo_write_byte (reg_addr tpm_base_addr TPM_FIFO_REG_STATUS) TPM_STAT_COMMAND_READY)
       (\<lambda>err.
     if err < 0 then ret err else
     andthen (deref (timeouts chip)) (\<lambda>tmo.
     andthen (tpm2_wait_reg_bits (reg_addr tpm_base_addr TPM_FIFO_REG_STATUS)
                TPM_STAT_COMMAND_READY (msec_b tmo) 0) (\<lambda>(err, status).
     if err < 0 then ret err else ret TPM_SUCCESS))))"

text \<open>The loop variable is \<^verbatim>\<open>*burstcount\<close>.\<close>

definition burst_body :: "u16 \<Rightarrow> u64 \<Rightarrow> u16 \<Rightarrow> ('p tpm_lib, (int \<times> u16) + u16) op" where
  "burst_body tpm_base_addr timeout_delay burstcount =
     andthen (tpm2_fifo_read_byte (reg_addr tpm_base_addr TPM_FIFO_REG_BURST_COUNT_LO) 0)
       (\<lambda>(err, byte0).
     if err < 0 then ret (Inl (err, burstcount)) else
     andthen (tpm2_fifo_read_byte (reg_addr tpm_base_addr TPM_FIFO_REG_BURST_COUNT_HI) 0)
       (\<lambda>(err, byte1).
     if err < 0 then ret (Inl (err, burstcount)) else
     let burstcount = push_bit 8 (ucast byte1) + ucast byte0 in
     if burstcount \<noteq> 0 then ret (Inl (TPM_SUCCESS, burstcount)) else
     andthen (call_timeout_elapsed timeout_delay) (\<lambda>elapsed.
     if elapsed then ret (Inl (TPM_ERR_TIMEOUT, burstcount)) else ret (Inr burstcount))))"

text \<open>\<open>burstcount\<close> is the pointer argument: \<open>None\<close> is \<^verbatim>\<open>NULL\<close>.\<close>

definition tpm2_fifo_get_burstcount ::
  "tpm_chip_data option \<Rightarrow> u16 option \<Rightarrow> ('p tpm_lib, int \<times> u16) op" where
  "tpm2_fifo_get_burstcount chip_data burstcount =
     andthen (deref chip_data) (\<lambda>chip.
     let tpm_base_addr = LOCALITY_START_ADDRESS (locality chip) in
     andthen (deref (timeouts chip)) (\<lambda>tmo.
     andthen (call_timeout_init_us (ucast (msec_a tmo * 1000))) (\<lambda>timeout_delay.
     case burstcount of
       None \<Rightarrow> ret (TPM_INVALID_PARAM, 0)
     | Some b \<Rightarrow> loop (burst_body tpm_base_addr timeout_delay) b)))"

subsection \<open>Sending a command\<close>

text \<open>Writing bytes to the data FIFO one by one; the first error ends the loop.\<close>

fun write_fifo_bytes :: "u16 \<Rightarrow> byte list \<Rightarrow> ('p tpm_lib, int) op" where
  "write_fifo_bytes tpm_base_addr [] = ret TPM_SUCCESS"
| "write_fifo_bytes tpm_base_addr (b # bs) =
     andthen (tpm2_fifo_write_byte (reg_addr tpm_base_addr TPM_FIFO_REG_DATA_FIFO) b) (\<lambda>err.
     if err < 0 then ret err else write_fifo_bytes tpm_base_addr bs)"

text \<open>
  \<^verbatim>\<open>for (; burstcnt > 0U && index < len; burstcnt--)\<close>: the first argument is \<^verbatim>\<open>burstcnt\<close>;
  the result is the error code and the new \<^verbatim>\<open>index\<close>. \<^verbatim>\<open>index - TPM_HEADER_SIZE\<close> does not
  wrap: the loop is entered with \<^verbatim>\<open>index = TPM_HEADER_SIZE\<close>.
\<close>

fun send_burst ::
  "nat \<Rightarrow> u16 \<Rightarrow> byte list \<Rightarrow> nat \<Rightarrow> nat \<Rightarrow> ('p tpm_lib, int \<times> nat) op" where
  "send_burst 0 tpm_base_addr buf_data len index = ret (TPM_SUCCESS, index)"
| "send_burst (Suc burstcnt) tpm_base_addr buf_data len index =
     (if index < len then
        andthen (array_get buf_data (index - TPM_HEADER_SIZE)) (\<lambda>b.
        andthen (tpm2_fifo_write_byte (reg_addr tpm_base_addr TPM_FIFO_REG_DATA_FIFO) b) (\<lambda>err.
        if err < 0 then ret (err, index)
        else send_burst burstcnt tpm_base_addr buf_data len (index + 1)))
      else ret (TPM_SUCCESS, index))"

text \<open>\<^verbatim>\<open>while (index < len)\<close>; it leaves with an error code or \<open>TPM_SUCCESS\<close>.\<close>

definition send_body ::
  "tpm_chip_data option \<Rightarrow> u16 \<Rightarrow> byte list \<Rightarrow> nat \<Rightarrow> nat \<Rightarrow> ('p tpm_lib, int + nat) op" where
  "send_body chip_data tpm_base_addr buf_data len index =
     (if index < len then
        andthen (tpm2_fifo_get_burstcount chip_data (Some 0)) (\<lambda>(err, burstcnt).
        if err < 0 then ret (Inl err) else
        andthen (send_burst (unat burstcnt) tpm_base_addr buf_data len index) (\<lambda>(err, index).
        if err < 0 then ret (Inl err) else ret (Inr index)))
      else ret (Inl TPM_SUCCESS))"

text \<open>
  The size test on \<^verbatim>\<open>sizeof(buf->header)\<close> is decided by the type: the packed header has
  \<open>TPM_HEADER_SIZE\<close> bytes (\<open>length_hdr_bytes\<close>).
\<close>

definition tpm2_fifo_send ::
  "byte_order \<Rightarrow> tpm_chip_data option \<Rightarrow> tpm_cmd \<Rightarrow> ('p tpm_lib, int) op" where
  "tpm2_fifo_send bo chip_data buf =
     andthen (deref chip_data) (\<lambda>chip.
     let tpm_base_addr = LOCALITY_START_ADDRESS (locality chip) in
     if length (hdr_bytes bo (header buf)) \<noteq> TPM_HEADER_SIZE then ret TPM_INVALID_PARAM else
     andthen (tpm2_fifo_read_byte (reg_addr tpm_base_addr TPM_FIFO_REG_STATUS) 0) (\<lambda>(err, status).
     if err < 0 then ret err else
     andthen (if status AND TPM_STAT_COMMAND_READY = 0 then tpm2_fifo_prepare chip_data
              else ret TPM_SUCCESS) (\<lambda>err.
     if err < 0 then ret err else
     andthen (write_fifo_bytes tpm_base_addr (hdr_bytes bo (header buf))) (\<lambda>err.
     if err < 0 then ret err else
     let len = unat (be32toh bo (cmd_size (header buf))) in
     if len < TPM_HEADER_SIZE then ret TPM_INVALID_PARAM else
     andthen (loop (send_body chip_data tpm_base_addr (data buf) len) TPM_HEADER_SIZE) (\<lambda>err.
     if err < 0 then ret err else
     andthen (deref (timeouts chip)) (\<lambda>tmo.
     andthen (tpm2_wait_reg_bits (reg_addr tpm_base_addr TPM_FIFO_REG_STATUS)
                TPM_STAT_VALID (msec_c tmo) status) (\<lambda>(err, status).
     if err < 0 then ret err else
     if status AND TPM_STAT_EXPECT \<noteq> 0 then ret TPM_ERR_TRANSFER else
     andthen (tpm2_fifo_write_byte (reg_addr tpm_base_addr TPM_FIFO_REG_STATUS) TPM_STAT_GO) (\<lambda>err.
     if err < 0 then ret err else ret TPM_SUCCESS))))))))"

subsection \<open>Receiving a response\<close>

text \<open>
  \<^verbatim>\<open>read_data[loop_index]\<close> is a byte of the header or of the data array; reading into a
  place outside the object is a fault.
\<close>

datatype read_target = Read_Header | Read_Data

definition in_target :: "read_target \<Rightarrow> tpm_cmd \<Rightarrow> int \<Rightarrow> bool" where
  "in_target dst buf i \<longleftrightarrow>
     0 \<le> i \<and> i < int (case dst of Read_Header \<Rightarrow> TPM_HEADER_SIZE | Read_Data \<Rightarrow> length (data buf))"

definition set_byte :: "byte_order \<Rightarrow> read_target \<Rightarrow> tpm_cmd \<Rightarrow> nat \<Rightarrow> byte \<Rightarrow> tpm_cmd" where
  "set_byte bo dst buf i b =
     (case dst of
        Read_Header \<Rightarrow> buf\<lparr>header := hdr_of_bytes bo ((hdr_bytes bo (header buf))[i := b])\<rparr>
      | Read_Data \<Rightarrow> buf\<lparr>data := (data buf)[i := b]\<rparr>)"

definition get_byte :: "byte_order \<Rightarrow> read_target \<Rightarrow> tpm_cmd \<Rightarrow> nat \<Rightarrow> byte" where
  "get_byte bo dst buf i =
     (case dst of Read_Header \<Rightarrow> hdr_bytes bo (header buf) ! i | Read_Data \<Rightarrow> data buf ! i)"

text \<open>
  \<^verbatim>\<open>for (; burstcnt > 0U && loop_index < read_size; burstcnt--, loop_index++, (*size)++)\<close>:
  the result is the error code, the buffer, \<^verbatim>\<open>loop_index\<close> and \<^verbatim>\<open>*size\<close>. A read that fails
  may have changed the byte it was to fill.
\<close>

fun recv_burst ::
  "byte_order \<Rightarrow> nat \<Rightarrow> u16 \<Rightarrow> read_target \<Rightarrow> int \<Rightarrow> tpm_cmd \<Rightarrow> int \<Rightarrow> int \<Rightarrow>
     ('p tpm_lib, int \<times> tpm_cmd \<times> int \<times> int) op" where
  "recv_burst bo 0 tpm_base_addr dst read_size buf loop_index sz =
     ret (TPM_SUCCESS, buf, loop_index, sz)"
| "recv_burst bo (Suc burstcnt) tpm_base_addr dst read_size buf loop_index sz =
     (if loop_index < read_size then
        if \<not> in_target dst buf loop_index then fail Out_Of_Bounds else
        andthen (tpm2_fifo_read_byte (reg_addr tpm_base_addr TPM_FIFO_REG_DATA_FIFO)
                   (get_byte bo dst buf (nat loop_index))) (\<lambda>(err, b).
        let buf = set_byte bo dst buf (nat loop_index) b in
        if err < 0 then ret (err, buf, loop_index, sz)
        else recv_burst bo burstcnt tpm_base_addr dst read_size buf (loop_index + 1) (sz + 1))
      else ret (TPM_SUCCESS, buf, loop_index, sz))"

text \<open>\<^verbatim>\<open>while (*size < read_size)\<close>, over the buffer, \<^verbatim>\<open>loop_index\<close> and \<^verbatim>\<open>*size\<close>.\<close>

definition recv_body ::
  "byte_order \<Rightarrow> tpm_chip_data option \<Rightarrow> u16 \<Rightarrow> read_target \<Rightarrow> int \<Rightarrow> tpm_cmd \<times> int \<times> int \<Rightarrow>
     ('p tpm_lib, (int \<times> tpm_cmd \<times> int) + (tpm_cmd \<times> int \<times> int)) op" where
  "recv_body bo chip_data tpm_base_addr dst read_size = (\<lambda>(buf, loop_index, sz).
     if sz < read_size then
       andthen (tpm2_fifo_get_burstcount chip_data (Some 0)) (\<lambda>(err, burstcnt).
       if err < 0 then ret (Inl (err, buf, sz)) else
       andthen (recv_burst bo (unat burstcnt) tpm_base_addr dst read_size buf loop_index sz)
         (\<lambda>(err, buf, loop_index, sz).
       if err < 0 then ret (Inl (err, buf, sz)) else ret (Inr (buf, loop_index, sz))))
     else ret (Inl (TPM_SUCCESS, buf, sz)))"

definition tpm2_fifo_read_data ::
  "byte_order \<Rightarrow> tpm_chip_data option \<Rightarrow> tpm_cmd \<Rightarrow> u16 \<Rightarrow> byte \<Rightarrow> int \<Rightarrow> int \<Rightarrow>
     ('p tpm_lib, int \<times> tpm_cmd \<times> int) op" where
  "tpm2_fifo_read_data bo chip_data buf tpm_base_addr status sz bytes_expected =
     (let (dst, read_size, loop_index) =
        (if bytes_expected = TPM_READ_HEADER then (Read_Header, int TPM_HEADER_SIZE, sz)
         else (Read_Data, bytes_expected, sz - int TPM_HEADER_SIZE)) in
      andthen (deref chip_data) (\<lambda>chip.
      andthen (deref (timeouts chip)) (\<lambda>tmo.
      andthen (tpm2_wait_reg_bits (reg_addr tpm_base_addr TPM_FIFO_REG_STATUS)
                 TPM_STAT_AVAIL (msec_c tmo) status) (\<lambda>(err, status).
      if err < 0 then ret (err, buf, sz) else
      loop (recv_body bo chip_data tpm_base_addr dst read_size) (buf, loop_index, sz)))))"

text \<open>
  \<^verbatim>\<open>bytes_expected\<close> is an \<^verbatim>\<open>int\<close>; comparing it with \<^verbatim>\<open>sizeof( *buf)\<close> converts it to the
  unsigned type, so a negative value counts as a large one.
\<close>

definition tpm2_fifo_receive ::
  "byte_order \<Rightarrow> tpm_chip_data option \<Rightarrow> tpm_cmd \<Rightarrow> ('p tpm_lib, int \<times> tpm_cmd) op" where
  "tpm2_fifo_receive bo chip_data buf =
     andthen (deref chip_data) (\<lambda>chip.
     let tpm_base_addr = LOCALITY_START_ADDRESS (locality chip) in
     andthen (tpm2_fifo_read_data bo chip_data buf tpm_base_addr 0 0 TPM_READ_HEADER)
       (\<lambda>(err, buf, sz).
     if err < 0 then ret (err, buf) else
     let bytes_expected = sint (be32toh bo (cmd_size (header buf))) in
     if (word_of_int bytes_expected :: u64) > of_nat sizeof_tpm_cmd then ret (TPM_INVALID_PARAM, buf) else
     if sz = bytes_expected then ret (sz, buf) else
     andthen (tpm2_fifo_read_data bo chip_data buf tpm_base_addr 0 sz bytes_expected)
       (\<lambda>(err, buf, sz).
     if err < 0 then ret (err, buf) else
     if sz < bytes_expected then ret (TPM_ERR_RESPONSE, buf) else
     ret (TPM_SUCCESS, buf))))"

end
