(* ===== verification/TPM_Trace.thy ===== *)
theory TPM_Trace
  imports TPM_FIFO
begin

text \<open>
  What the FIFO layer does to the registers. A run of the library is a sequence of
  register accesses and timer calls: \<open>reg_run s tr t\<close> says that the accesses \<open>tr\<close>, made one
  after the other by the functions of \<open>TPM_SPI\<close>, lead from \<open>s\<close> to \<open>t\<close>. \<open>traced m P\<close> says
  that whenever the operation \<open>m\<close> returns, it has made such a run, of which \<open>P\<close> holds. The
  rules for \<open>traced\<close> follow the code and never mention the state.

  The locale \<open>lib_preorder\<close> lifts a fact about single accesses (a relation they all
  satisfy) to every operation that is traced.
\<close>

section \<open>Runs of register accesses\<close>

datatype reg_op =
    Reg_Read u16 byte int
  | Reg_Write u16 byte int
  | Reg_Chunk u16 "byte list" int
  | Timer_Init u32 u64
  | Timer_Poll u64 bool

inductive reg_step :: "'p tpm_lib \<Rightarrow> reg_op \<Rightarrow> 'p tpm_lib \<Rightarrow> bool" where
  step_read: "tpm2_fifo_read_byte reg old s = Some (Inr ((rc, v), t)) \<Longrightarrow> reg_step s (Reg_Read reg v rc) t"
| step_write: "tpm2_fifo_write_byte reg v s = Some (Inr (rc, t)) \<Longrightarrow> reg_step s (Reg_Write reg v rc) t"
| step_chunk: "tpm2_fifo_read_chunk reg len old s = Some (Inr ((rc, v), t)) \<Longrightarrow> reg_step s (Reg_Chunk reg v rc) t"
| step_init: "call_timeout_init_us us s = Some (Inr (d, t)) \<Longrightarrow> reg_step s (Timer_Init us d) t"
| step_poll: "call_timeout_elapsed d s = Some (Inr (b, t)) \<Longrightarrow> reg_step s (Timer_Poll d b) t"

inductive reg_run :: "'p tpm_lib \<Rightarrow> reg_op list \<Rightarrow> 'p tpm_lib \<Rightarrow> bool" where
  nil: "reg_run s [] s"
| cons: "reg_step s e t \<Longrightarrow> reg_run t tr u \<Longrightarrow> reg_run s (e # tr) u"

inductive_simps reg_run_nil [simp]: "reg_run s [] t"
inductive_simps reg_run_cons: "reg_run s (e # tr) u"

inductive_cases reg_step_readE: "reg_step s (Reg_Read reg v rc) t"
inductive_cases reg_step_chunkE: "reg_step s (Reg_Chunk reg v rc) t"
inductive_cases reg_step_writeE: "reg_step s (Reg_Write reg v rc) t"

lemma reg_run_append:
  "reg_run s tr t \<Longrightarrow> reg_run t tr' u \<Longrightarrow> reg_run s (tr @ tr') u"
  by (induction rule: reg_run.induct) (auto intro: reg_run.cons)

lemma reg_run_single: "reg_step s e t \<Longrightarrow> reg_run s [e] t"
  by (auto intro: reg_run.intros)

section \<open>Lifting relations from accesses to operations\<close>

locale lib_preorder =
  fixes R :: "'p tpm_lib \<Rightarrow> 'p tpm_lib \<Rightarrow> bool"
  assumes R_refl: "R s s"
    and R_trans: "R s t \<Longrightarrow> R t u \<Longrightarrow> R s u"
    and R_io: "tpm2_fifo_io reg access len val s = Some (Inr (x, t)) \<Longrightarrow> len \<le> ENCODE_LIMIT \<Longrightarrow> R s t"
    and R_timer_init: "call_timeout_init_us us s = Some (Inr (d, t)) \<Longrightarrow> R s t"
    and R_timer_poll: "call_timeout_elapsed d s = Some (Inr (b, t)) \<Longrightarrow> R s t"
begin

lemma R_step: "reg_step s e t \<Longrightarrow> R s t"
proof (induction rule: reg_step.induct)
  case (step_read reg old s rc v t)
  then show ?case
    by (auto simp: tpm2_fifo_read_byte_def andthen_eq_Some_Inr ret_def split: prod.splits intro: R_io)
next
  case (step_write reg v s rc t)
  then show ?case
    by (auto simp: tpm2_fifo_write_byte_def andthen_eq_Some_Inr ret_def split: prod.splits intro: R_io)
next
  case (step_chunk reg len old s rc v t)
  then show ?case
    by (auto simp: tpm2_fifo_read_chunk_def ret_def R_refl split: if_splits intro: R_io)
qed (auto intro: R_timer_init R_timer_poll)

lemma R_run: "reg_run s tr t \<Longrightarrow> R s t"
  by (induction rule: reg_run.induct) (blast intro: R_refl R_trans R_step)+

end

text \<open>
  Two relations every access keeps: the pointers set by \<^verbatim>\<open>tpm_interface_init\<close> stay, and a
  recorded transport error is only ever replaced by another nonzero one.
\<close>

definition error_kept :: "'p tpm_lib \<Rightarrow> 'p tpm_lib \<Rightarrow> bool" where
  "error_kept s t \<longleftrightarrow>
     tpm_last_transport_error t = tpm_last_transport_error s \<or> tpm_last_transport_error t \<noteq> 0"

lemma timer_calls_globals:
  "call_timeout_init_us us s = Some (Inr (d, t)) \<Longrightarrow> \<exists>p. t = s\<lparr>plat := p\<rparr>"
  "call_timeout_elapsed e s = Some (Inr (b, t)) \<Longrightarrow> \<exists>p. t = s\<lparr>plat := p\<rparr>"
  by (cases "tpm_timeout_ops s";
      auto simp: call_timeout_init_us_def call_timeout_elapsed_def andthen_def get_state_def
        modify_def deref_def ret_def fail_def split: prod.splits)+

interpretation frame: lib_preorder same_globals
proof
  fix reg access len val and s t :: "'a tpm_lib" and x
  assume "tpm2_fifo_io reg access len val s = Some (Inr (x, t))" "len \<le> ENCODE_LIMIT"
  then show "same_globals s t"
    by (cases x) (auto simp: transport_report_def dest: fifo_io_returns(2))
qed (auto simp: same_globals_def dest: timer_calls_globals)

interpretation errors: lib_preorder error_kept
proof
  fix reg access len val and s t :: "'a tpm_lib" and x
  assume "tpm2_fifo_io reg access len val s = Some (Inr (x, t))" "len \<le> ENCODE_LIMIT"
  then show "error_kept s t"
    by (cases x) (auto simp: transport_report_def error_kept_def dest: fifo_io_returns(2) split: if_splits)
qed (auto simp: error_kept_def dest: timer_calls_globals)

lemma run_globals: "reg_run s tr t \<Longrightarrow> same_globals s t \<and> error_kept s t"
  using frame.R_run errors.R_run by blast

section \<open>Traced operations\<close>

definition traced :: "('p tpm_lib, 'a) op \<Rightarrow> ('a \<Rightarrow> reg_op list \<Rightarrow> bool) \<Rightarrow> bool" where
  "traced m P \<longleftrightarrow> (\<forall>s a t. m s = Some (Inr (a, t)) \<longrightarrow> (\<exists>tr. reg_run s tr t \<and> P a tr))"

lemma tracedD: "traced m P \<Longrightarrow> m s = Some (Inr (a, t)) \<Longrightarrow> \<exists>tr. reg_run s tr t \<and> P a tr"
  by (simp add: traced_def)

lemma traced_mono: "traced m P \<Longrightarrow> (\<And>a tr. P a tr \<Longrightarrow> Q a tr) \<Longrightarrow> traced m Q"
  unfolding traced_def by blast

lemma traced_ret [intro!]: "P a [] \<Longrightarrow> traced (ret a) P"
  by (auto simp: traced_def ret_def intro: exI [of _ "[]"])

lemma traced_fail [simp, intro!]: "traced (fail f) P"
  by (simp add: traced_def fail_def)

lemma traced_andthen:
  assumes "traced m P" and "\<And>a tr. P a tr \<Longrightarrow> traced (k a) (\<lambda>b tr'. Q b (tr @ tr'))"
  shows "traced (andthen m k) Q"
  unfolding traced_def andthen_eq_Some_Inr
proof (intro allI impI, elim exE conjE)
  fix s b u a t
  assume m: "m s = Some (Inr (a, t))" and k: "k a t = Some (Inr (b, u))"
  obtain tr where tr: "reg_run s tr t" "P a tr" using tracedD [OF assms(1) m] by blast
  obtain tr' where "reg_run t tr' u" "Q b (tr @ tr')"
    using tracedD [OF assms(2) [OF tr(2)] k] by blast
  with tr show "\<exists>tr. reg_run s tr u \<and> Q b tr" by (blast intro: reg_run_append)
qed

lemma traced_if [intro!]:
  "(b \<Longrightarrow> traced m P) \<Longrightarrow> (\<not> b \<Longrightarrow> traced m' P) \<Longrightarrow> traced (if b then m else m') P"
  by simp

lemma traced_prod [intro!]:
  "(\<And>a b. p = (a, b) \<Longrightarrow> traced (k a b) Q) \<Longrightarrow> traced (case p of (a, b) \<Rightarrow> k a b) Q"
  by (cases p) simp

lemma traced_deref:
  "(\<And>a. p = Some a \<Longrightarrow> traced (k a) Q) \<Longrightarrow> traced (andthen (deref p) k) Q"
  by (cases p) simp_all

lemma traced_array_get:
  "(i < length xs \<Longrightarrow> traced (k (xs ! i)) Q) \<Longrightarrow> traced (andthen (array_get xs i) k) Q"
  by (simp add: array_get_def)

lemma traced_loop:
  assumes body: "\<And>x tr. I x tr \<Longrightarrow>
      traced (body x) (\<lambda>e tr'. case e of Inl r \<Rightarrow> Q r (tr @ tr') | Inr y \<Rightarrow> I y (tr @ tr'))"
    and init: "I x []"
  shows "traced (loop body x) Q"
  unfolding traced_def
proof (intro allI impI)
  fix s r t
  assume run: "loop body x s = Some (Inr (r, t))"
  have "wp True True (loop body x) (\<lambda>r t. \<exists>tr. reg_run s tr t \<and> Q r tr) s"
  proof (rule wp_loop_partial [where I = "\<lambda>x t. \<exists>tr. reg_run s tr t \<and> I x tr"])
    fix x u
    assume "\<exists>tr. reg_run s tr u \<and> I x tr"
    then obtain tr where tr: "reg_run s tr u" "I x tr" by blast
    show "wp True True (body x) (\<lambda>e s'. case e of Inl r \<Rightarrow> \<exists>tr. reg_run s tr s' \<and> Q r tr
        | Inr y \<Rightarrow> \<exists>tr. reg_run s tr s' \<and> I y tr) u"
    proof (rule wp_partialI)
      fix e v
      assume "body x u = Some (Inr (e, v))"
      from tracedD [OF body [OF tr(2)] this] obtain tr' where
        "reg_run u tr' v" "case e of Inl r \<Rightarrow> Q r (tr @ tr') | Inr y \<Rightarrow> I y (tr @ tr')" by blast
      then show "case e of Inl r \<Rightarrow> \<exists>tr. reg_run s tr v \<and> Q r tr
          | Inr y \<Rightarrow> \<exists>tr. reg_run s tr v \<and> I y tr"
        using tr(1) by (auto split: sum.splits intro: reg_run_append)
    qed
  qed (use init reg_run.nil in blast)
  then show "\<exists>tr. reg_run s tr t \<and> Q r tr" using run by (simp add: wp_def)
qed

lemma traced_step:
  assumes "\<And>s a t. m s = Some (Inr (a, t)) \<Longrightarrow> \<exists>e. reg_step s e t \<and> P a [e]"
  shows "traced m P"
  unfolding traced_def using assms by (blast intro: reg_run_single)

lemma traced_read:
  "traced (tpm2_fifo_read_byte reg old) (\<lambda>(rc, v) tr. io_code rc \<and> tr = [Reg_Read reg v rc])"
  by (rule traced_step) (auto intro: reg_step.intros dest: read_byte_returns)

lemma traced_write:
  "traced (tpm2_fifo_write_byte reg v) (\<lambda>rc tr. io_code rc \<and> tr = [Reg_Write reg v rc])"
  by (rule traced_step) (auto intro: reg_step.intros dest: write_byte_returns)

lemma traced_chunk:
  "traced (tpm2_fifo_read_chunk reg len old)
     (\<lambda>(rc, v) tr. (rc = TPM_INVALID_PARAM \<or> io_code rc) \<and> tr = [Reg_Chunk reg v rc])"
proof (rule traced_step, goal_cases)
  case (1 s a t)
  obtain rc v where a: "a = (rc, v)" by (cases a)
  with 1 have "reg_step s (Reg_Chunk reg v rc) t" by (blast intro: reg_step.step_chunk)
  with a read_chunk_returns [OF 1 [unfolded a]] show ?case by auto
qed

lemma traced_timer_init:
  "traced (call_timeout_init_us us) (\<lambda>d tr. tr = [Timer_Init us d])"
  by (rule traced_step) (auto intro: reg_step.intros)

lemma traced_timer_poll:
  "traced (call_timeout_elapsed d) (\<lambda>b tr. tr = [Timer_Poll d b])"
  by (rule traced_step) (auto intro: reg_step.intros)

section \<open>Views of a trace\<close>

text \<open>
  The bytes written, with their registers, and the bytes read from one register, by single
  reads and by chunks.
\<close>

fun reg_writes :: "reg_op list \<Rightarrow> (u16 \<times> byte) list" where
  "reg_writes [] = []"
| "reg_writes (Reg_Write reg v rc # tr) = (if rc = 0 then (reg, v) # reg_writes tr else reg_writes tr)"
| "reg_writes (_ # tr) = reg_writes tr"

fun reg_reads :: "u16 \<Rightarrow> reg_op list \<Rightarrow> byte list" where
  "reg_reads a [] = []"
| "reg_reads a (Reg_Read reg v rc # tr) =
     (if rc = 0 \<and> reg = a then v # reg_reads a tr else reg_reads a tr)"
| "reg_reads a (Reg_Chunk reg bs rc # tr) =
     (if rc = 0 \<and> reg = a then bs @ reg_reads a tr else reg_reads a tr)"
| "reg_reads a (_ # tr) = reg_reads a tr"

lemma reg_writes_append [simp]: "reg_writes (tr @ tr') = reg_writes tr @ reg_writes tr'"
  by (induction tr rule: reg_writes.induct) auto

lemma reg_reads_append [simp]: "reg_reads a (tr @ tr') = reg_reads a tr @ reg_reads a tr'"
  by (induction a tr rule: reg_reads.induct) auto

text \<open>A trace that only polls: no register is written and the data FIFO is not read.\<close>

definition quiet :: "u16 \<Rightarrow> reg_op list \<Rightarrow> bool" where
  "quiet fifo tr \<longleftrightarrow> reg_writes tr = [] \<and> reg_reads fifo tr = []"

lemma quiet_simps [simp]:
  "quiet fifo []"
  "quiet fifo (tr @ tr') \<longleftrightarrow> quiet fifo tr \<and> quiet fifo tr'"
  "quiet fifo (Timer_Init us d # tr) \<longleftrightarrow> quiet fifo tr"
  "quiet fifo (Timer_Poll d' b # tr) \<longleftrightarrow> quiet fifo tr"
  "quiet fifo (Reg_Chunk reg bs rc # tr) \<longleftrightarrow> (rc \<noteq> 0 \<or> reg \<noteq> fifo \<or> bs = []) \<and> quiet fifo tr"
  "quiet fifo (Reg_Read reg v rc # tr) \<longleftrightarrow> (rc \<noteq> 0 \<or> reg \<noteq> fifo) \<and> quiet fifo tr"
  by (auto simp: quiet_def)

section \<open>Polling\<close>

text \<open>The result of a poll: an error, or the bits are set in the last value read.\<close>

definition wait_done :: "u16 \<Rightarrow> byte \<Rightarrow> int \<Rightarrow> byte \<Rightarrow> reg_op list \<Rightarrow> bool" where
  "wait_done reg bits rc v tr \<longleftrightarrow>
     io_code rc \<and>
     (rc = 0 \<longrightarrow> v AND bits = bits \<and> reg_reads reg tr \<noteq> [] \<and> last (reg_reads reg tr) = v)"

lemma traced_wait_body:
  assumes "reg \<noteq> fifo"
  shows "traced (wait_body reg bits d status)
    (\<lambda>e tr. quiet fifo tr \<and> (case e of Inl (rc, v) \<Rightarrow> wait_done reg bits rc v tr | Inr _ \<Rightarrow> True))"
  unfolding wait_body_def
  by (rule traced_andthen [OF traced_read])
    (auto simp: assms wait_done_def io_code_nonpos intro!: traced_andthen [OF traced_timer_poll]
      dest: io_code_nonpos)

lemma wait_done_append: "wait_done reg bits rc v tr' \<Longrightarrow> wait_done reg bits rc v (tr @ tr')"
  by (auto simp: wait_done_def)

lemma wait_done_Cons: "wait_done reg bits rc v tr \<Longrightarrow> wait_done reg bits rc v (e # tr)"
  using wait_done_append [of reg bits rc v tr "[e]"] by simp

lemma traced_wait_loop:
  assumes "reg \<noteq> fifo"
  shows "traced (loop (wait_body reg bits d) status)
    (\<lambda>(rc, v) tr. quiet fifo tr \<and> wait_done reg bits rc v tr)"
  by (rule traced_loop [where I = "\<lambda>_ tr. quiet fifo tr"],
      rule traced_mono [OF traced_wait_body [OF assms]])
    (auto split: sum.splits intro: wait_done_append)

lemma traced_wait_reg_bits:
  assumes "reg \<noteq> fifo"
  shows "traced (tpm2_wait_reg_bits reg bits tmo status)
    (\<lambda>(rc, v) tr. quiet fifo tr \<and> wait_done reg bits rc v tr)"
  unfolding tpm2_wait_reg_bits_def
  by (rule traced_andthen [OF traced_timer_init], rule traced_mono [OF traced_wait_loop [OF assms]])
    (auto dest: wait_done_Cons)

text \<open>A burst count is nonzero when it is returned without an error.\<close>

lemma traced_burst_body:
  assumes "reg_addr base TPM_FIFO_REG_BURST_COUNT_LO \<noteq> fifo"
    and "reg_addr base TPM_FIFO_REG_BURST_COUNT_HI \<noteq> fifo"
  shows "traced (burst_body base d b)
    (\<lambda>e tr. quiet fifo tr \<and> (case e of Inl (rc, n) \<Rightarrow> io_code rc \<and> (rc = 0 \<longrightarrow> n \<noteq> 0) | Inr _ \<Rightarrow> True))"
  unfolding burst_body_def
  by (rule traced_andthen [OF traced_read])
    (use assms in \<open>auto simp: Let_def dest: io_code_nonpos
       intro!: traced_andthen [OF traced_timer_poll] traced_andthen [OF traced_read]\<close>)

text \<open>The data FIFO of a locality is none of its other registers.\<close>

definition fifo_addr :: "u16 \<Rightarrow> u16" where
  "fifo_addr base = reg_addr base TPM_FIFO_REG_DATA_FIFO"

definition status_addr :: "u16 \<Rightarrow> u16" where
  "status_addr base = reg_addr base TPM_FIFO_REG_STATUS"

lemma mod_narrow: "x mod 4294967296 mod 65536 = x mod (65536 :: int)"
  by (rule mod_mod_cancel) simp

lemma mod_narrow_add: "(b + r mod 4294967296) mod 65536 = (b + r) mod (65536 :: int)"
  by (metis mod_add_right_eq mod_narrow)

lemma reg_addr_eq: "reg_addr base r = base + ucast r"
  unfolding reg_addr_def by transfer (simp add: take_bit_eq_mod mod_narrow mod_narrow_add mod_add_left_eq)

lemma fifo_addr_distinct:
  "reg_addr base TPM_FIFO_REG_BURST_COUNT_LO \<noteq> fifo_addr base"
  "reg_addr base TPM_FIFO_REG_BURST_COUNT_HI \<noteq> fifo_addr base"
  "status_addr base \<noteq> fifo_addr base"
  by (simp_all add: fifo_addr_def status_addr_def reg_addr_eq)

lemmas fifo_addr_distinct_numerals [simp] = fifo_addr_distinct [simplified]

lemma traced_burst_loop:
  "traced (loop (burst_body base d) b)
    (\<lambda>(rc, n) tr. quiet (fifo_addr base) tr \<and> io_code rc \<and> (rc = 0 \<longrightarrow> n \<noteq> 0))"
  by (rule traced_loop [where I = "\<lambda>_ tr. quiet (fifo_addr base) tr"],
      rule traced_mono [OF traced_burst_body [of _ "fifo_addr base"]])
    (auto split: sum.splits)

lemma traced_get_burstcount:
  "traced (tpm2_fifo_get_burstcount (Some chip) (Some b))
    (\<lambda>(rc, n) tr. quiet (fifo_addr (LOCALITY_START_ADDRESS (locality chip))) tr \<and>
       io_code rc \<and> (rc = 0 \<longrightarrow> n \<noteq> 0))"
  unfolding tpm2_fifo_get_burstcount_def deref_simps andthen_ret Let_def option.case
  by (rule traced_deref, rule traced_andthen [OF traced_timer_init],
      rule traced_mono [OF traced_burst_loop]) auto

section \<open>Sending\<close>

text \<open>
  The writes of a failed operation are a prefix of the writes of a successful one:
  \<open>writes_upto rc ws full\<close>.
\<close>

definition writes_upto :: "int \<Rightarrow> 'a list \<Rightarrow> 'a list \<Rightarrow> bool" where
  "writes_upto rc ws full \<longleftrightarrow> prefix ws full \<and> (rc = 0 \<longrightarrow> ws = full)"

lemma traced_write_fifo_bytes:
  "traced (write_fifo_bytes base bs)
    (\<lambda>rc tr. io_code rc \<and> writes_upto rc (reg_writes tr) (map (Pair (fifo_addr base)) bs))"
proof (induction bs)
  case Nil
  then show ?case by (auto simp: writes_upto_def)
next
  case (Cons b bs)
  show ?case
    unfolding write_fifo_bytes.simps
    by (rule traced_andthen [OF traced_write])
      (auto simp: writes_upto_def fifo_addr_def dest: io_code_nonpos
        intro!: traced_mono [OF Cons.IH])
qed

lemma writes_upto_refl [simp]: "writes_upto rc ws ws"
  by (simp add: writes_upto_def)

lemma writes_upto_stop: "writes_upto rc ws full \<Longrightarrow> rc \<noteq> 0 \<Longrightarrow> writes_upto rc ws (full @ rest)"
  by (auto simp: writes_upto_def intro: prefix_order.trans)

lemma writes_upto_go:
  "writes_upto rc ws rest \<Longrightarrow> writes_upto rc (full @ ws) (full @ rest)"
  by (auto simp: writes_upto_def)

lemma writes_upto_done: "writes_upto 0 ws full \<Longrightarrow> ws = full"
  by (simp add: writes_upto_def)

text \<open>The data bytes between two values of \<^verbatim>\<open>index\<close>.\<close>

definition segment :: "byte list \<Rightarrow> nat \<Rightarrow> nat \<Rightarrow> byte list" where
  "segment bs i j = take (j - i) (drop (i - TPM_HEADER_SIZE) bs)"

lemma segment_empty [simp]: "segment bs i i = []"
  by (simp add: segment_def)

lemma segment_append:
  assumes "TPM_HEADER_SIZE \<le> i" and "i \<le> j" and "j \<le> k"
  shows "segment bs i j @ segment bs j k = segment bs i k"
proof -
  have "j - TPM_HEADER_SIZE = (j - i) + (i - TPM_HEADER_SIZE)"
    using assms(1,2) by linarith
  then have d: "drop (j - TPM_HEADER_SIZE) bs = drop (j - i) (drop (i - TPM_HEADER_SIZE) bs)"
    by (simp only: drop_drop)
  have k: "k - i = (j - i) + (k - j)" using assms(2,3) by linarith
  show ?thesis unfolding segment_def d k by (simp only: take_add)
qed

lemma segment_Suc:
  "TPM_HEADER_SIZE \<le> i \<Longrightarrow> i - TPM_HEADER_SIZE < length bs \<Longrightarrow>
    segment bs i (Suc i) = [bs ! (i - TPM_HEADER_SIZE)]"
  by (simp add: segment_def take_Suc hd_drop_conv_nth)

lemma segment_prefix: "j \<le> len \<Longrightarrow> prefix (segment bs i j) (segment bs i len)"
proof -
  assume "j \<le> len"
  then have "j - i \<le> len - i" by (rule diff_le_mono)
  then have "segment bs i j = take (j - i) (segment bs i len)"
    by (simp only: segment_def take_take min_absorb1)
  then show ?thesis by (simp only: take_is_prefix)
qed

definition burst_sent :: "u16 \<Rightarrow> byte list \<Rightarrow> nat \<Rightarrow> nat \<Rightarrow> int \<Rightarrow> nat \<Rightarrow> reg_op list \<Rightarrow> bool" where
  "burst_sent base bs len i rc j tr \<longleftrightarrow>
     io_code rc \<and> i \<le> j \<and> j \<le> max i len \<and>
     reg_writes tr = map (Pair (fifo_addr base)) (segment bs i j)"

lemma burst_sent_step:
  assumes "burst_sent base bs len (i + 1) rc j tr" and "i < len"
    and "TPM_HEADER_SIZE \<le> i" and "i - TPM_HEADER_SIZE < length bs"
  shows "burst_sent base bs len i rc j
    (Reg_Write (fifo_addr base) (bs ! (i - TPM_HEADER_SIZE)) 0 # tr)"
  using assms segment_append [OF assms(3), of "Suc i" j bs] segment_Suc [OF assms(3,4)]
  by (auto simp: burst_sent_def simp flip: list.map(2))

lemma traced_send_burst:
  "TPM_HEADER_SIZE \<le> i \<Longrightarrow>
    traced (send_burst n base bs len i) (\<lambda>(rc, j) tr. burst_sent base bs len i rc j tr)"
proof (induction n arbitrary: i)
  case 0
  then show ?case by (auto simp: burst_sent_def)
next
  case (Suc n)
  show ?case
    unfolding send_burst.simps
  proof (intro traced_if traced_array_get traced_andthen [OF traced_write], goal_cases)
    case (1 rc tr)
    then show ?case by (auto simp: burst_sent_def)
  next
    case (2 rc tr)
    then have tr: "tr = [Reg_Write (fifo_addr base) (bs ! (i - TPM_HEADER_SIZE)) 0]"
      by (auto simp: fifo_addr_def dest: io_code_nonpos)
    have i: "TPM_HEADER_SIZE \<le> i + 1" using Suc.prems by simp
    show ?case
      by (rule traced_mono [OF Suc.IH [OF i]])
        (auto simp only: tr append.simps prod.case
          intro!: burst_sent_step [OF _ 2(1) Suc.prems 2(2)])
  next
    case 3
    then show ?case by (auto simp: burst_sent_def)
  qed
qed

lemma burst_sent_quiet:
  "quiet (fifo_addr base) tr \<Longrightarrow> burst_sent base bs len i rc j tr' \<Longrightarrow> burst_sent base bs len i rc j (tr @ tr')"
  by (simp add: burst_sent_def quiet_def)

lemma burst_sent_none: "quiet (fifo_addr base) tr \<Longrightarrow> io_code rc \<Longrightarrow> burst_sent base bs len i rc i tr"
  by (simp add: burst_sent_def quiet_def)

lemma burst_sent_stopped:
  "quiet (fifo_addr base) tr \<Longrightarrow> io_code rc \<Longrightarrow> \<exists>j. burst_sent base bs len i rc j tr"
  "quiet (fifo_addr base) tr \<Longrightarrow> burst_sent base bs len i rc j tr' \<Longrightarrow>
    \<exists>j. burst_sent base bs len i rc j (tr @ tr')"
  by (blast intro: burst_sent_none burst_sent_quiet)+

lemma burst_sent_ok:
  "quiet (fifo_addr base) tr \<Longrightarrow> burst_sent base bs len i rc j tr' \<Longrightarrow> \<not> rc < 0 \<Longrightarrow>
    burst_sent base bs len i 0 j (tr @ tr')"
  by (auto simp: burst_sent_def quiet_def)

lemma traced_send_body:
  assumes "TPM_HEADER_SIZE \<le> i" and "base = LOCALITY_START_ADDRESS (locality chip)"
  shows "traced (send_body (Some chip) base bs len i)
    (\<lambda>e tr. case e of
        Inl rc \<Rightarrow> \<exists>j. burst_sent base bs len i rc j tr \<and> (rc = 0 \<longrightarrow> j = i \<and> len \<le> i)
      | Inr j \<Rightarrow> burst_sent base bs len i 0 j tr)"
  unfolding send_body_def
proof (intro traced_if traced_andthen [OF traced_get_burstcount], goal_cases)
  case (1 a tr)
  then show ?case
    unfolding assms(2)
    by (cases a)
      (auto intro: burst_sent_stopped burst_sent_ok
        intro!: traced_andthen [OF traced_send_burst [OF assms(1)]])
next
  case 2
  then show ?case by (auto simp: burst_sent_def)
qed

lemma traced_send_loop:
  assumes "TPM_HEADER_SIZE \<le> len" and "base = LOCALITY_START_ADDRESS (locality chip)"
  shows "traced (loop (send_body (Some chip) base bs len) TPM_HEADER_SIZE)
    (\<lambda>rc tr. io_code rc \<and> writes_upto rc (reg_writes tr)
       (map (Pair (fifo_addr base)) (take (len - TPM_HEADER_SIZE) bs)))"
proof -
  have all: "take (len - TPM_HEADER_SIZE) bs = segment bs TPM_HEADER_SIZE len"
    by (simp add: segment_def)
  have upto: "writes_upto rc (map f (segment bs TPM_HEADER_SIZE j))
      (map f (segment bs TPM_HEADER_SIZE len))" if "j \<le> len" "rc = 0 \<Longrightarrow> j = len"
    for rc j and f :: "byte \<Rightarrow> u16 \<times> byte"
    using that by (auto simp: writes_upto_def intro: map_mono_prefix segment_prefix)
  have grown: "map f (segment bs TPM_HEADER_SIZE i) @ map f (segment bs i j)
      = map f (segment bs TPM_HEADER_SIZE j)" if "TPM_HEADER_SIZE \<le> i" "i \<le> j"
    for i j and f :: "byte \<Rightarrow> u16 \<times> byte"
    using that segment_append [of TPM_HEADER_SIZE i j bs] by (simp flip: map_append)
  show ?thesis
    unfolding all
  proof (rule traced_loop [where I = "\<lambda>i tr. TPM_HEADER_SIZE \<le> i \<and> i \<le> len \<and>
      reg_writes tr = map (Pair (fifo_addr base)) (segment bs TPM_HEADER_SIZE i)"], goal_cases)
    case (1 i tr)
    then have i: "TPM_HEADER_SIZE \<le> i" by simp
    show ?case
    proof (rule traced_mono [OF traced_send_body [OF i assms(2)]], goal_cases)
      case (1 e tr')
      note I = \<open>TPM_HEADER_SIZE \<le> i \<and> i \<le> len \<and> _\<close>
      from 1 I show ?case
        by (auto simp: burst_sent_def grown simp del: TPM_HEADER_SIZE_def split: sum.splits
            intro!: upto)
    qed
  next
    case 2
    with assms(1) show ?case by simp
  qed
qed

lemma writes_upto_quiet:
  "writes_upto rc (reg_writes tr) full \<Longrightarrow> quiet fifo tr' \<Longrightarrow> writes_upto rc (reg_writes (tr @ tr')) full"
  by (simp add: quiet_def)

lemma traced_prepare:
  fixes chip :: tpm_chip_data
  defines "base \<equiv> LOCALITY_START_ADDRESS (locality chip)"
  shows "traced (tpm2_fifo_prepare (Some chip))
    (\<lambda>rc tr. io_code rc \<and> writes_upto rc (reg_writes tr) [(status_addr base, TPM_STAT_COMMAND_READY)])"
  unfolding tpm2_fifo_prepare_def deref_simps andthen_ret Let_def base_def [symmetric]
    status_addr_def [symmetric]
proof (rule traced_andthen [OF traced_write], rule traced_if, goal_cases)
  case (1 rc tr)
  then show ?case by (auto simp: writes_upto_def)
next
  case (2 rc tr)
  then have rc: "rc = 0" using io_code_nonpos by auto
  show ?case
    by (intro traced_deref traced_andthen [OF traced_wait_reg_bits [OF fifo_addr_distinct(3)]])
      (use 2 rc in \<open>auto simp: quiet_def wait_done_def writes_upto_def dest: io_code_nonpos\<close>)
qed

text \<open>
  What a complete transmission writes: the header and the announced number of bytes to
  the data FIFO, then \<open>TPM_STAT_GO\<close> to the status register; before that, if the TPM
  was not ready, \<open>TPM_STAT_COMMAND_READY\<close>.
\<close>

definition cmd_bytes :: "byte_order \<Rightarrow> tpm_cmd \<Rightarrow> byte list" where
  "cmd_bytes bo buf =
     hdr_bytes bo (header buf) @
     take (unat (be32toh bo (cmd_size (header buf))) - TPM_HEADER_SIZE) (data buf)"

definition send_script :: "byte_order \<Rightarrow> u16 \<Rightarrow> tpm_cmd \<Rightarrow> (u16 \<times> byte) list" where
  "send_script bo base buf =
     map (Pair (fifo_addr base)) (cmd_bytes bo buf) @ [(status_addr base, TPM_STAT_GO)]"

definition ready_writes :: "u16 \<Rightarrow> (u16 \<times> byte) list set" where
  "ready_writes base = {[], [(status_addr base, TPM_STAT_COMMAND_READY)]}"

definition sent :: "byte_order \<Rightarrow> u16 \<Rightarrow> tpm_cmd \<Rightarrow> int \<Rightarrow> reg_op list \<Rightarrow> bool" where
  "sent bo base buf rc tr \<longleftrightarrow>
     (io_code rc \<or> rc = TPM_INVALID_PARAM) \<and>
     (\<exists>pre \<in> ready_writes base. writes_upto rc (reg_writes tr) (pre @ send_script bo base buf))"

lemma traced_prepare_if:
  assumes "base = LOCALITY_START_ADDRESS (locality chip)"
  shows "traced (if c then tpm2_fifo_prepare (Some chip) else ret TPM_SUCCESS)
    (\<lambda>rc tr. io_code rc \<and> (\<exists>pre \<in> ready_writes base. writes_upto rc (reg_writes tr) pre))"
  unfolding assms
  by (intro traced_if traced_mono [OF traced_prepare]) (auto simp: ready_writes_def)

lemma traced_send_finish:
  "traced (andthen (deref tp) (\<lambda>tmo.
     andthen (tpm2_wait_reg_bits (status_addr base) TPM_STAT_VALID (msec_c tmo) status) (\<lambda>(err, status).
     if err < 0 then ret err else
     if status AND TPM_STAT_EXPECT \<noteq> 0 then ret TPM_ERR_TRANSFER else
     andthen (tpm2_fifo_write_byte (status_addr base) TPM_STAT_GO) (\<lambda>err.
     if err < 0 then ret err else ret TPM_SUCCESS))))
   (\<lambda>rc tr. io_code rc \<and> writes_upto rc (reg_writes tr) [(status_addr base, TPM_STAT_GO)])"
  by (intro traced_deref traced_andthen [OF traced_wait_reg_bits [OF fifo_addr_distinct(3)]]
      traced_prod traced_if traced_andthen [OF traced_write])
    (auto simp: quiet_def wait_done_def writes_upto_def dest: io_code_nonpos)

lemma sent_not_ready:
  assumes "io_code rc" and "rc \<noteq> 0" and "pre \<in> ready_writes base"
    and "writes_upto rc (reg_writes tr) pre"
  shows "sent bo base buf rc tr"
  using assms writes_upto_stop [OF assms(4,2)] by (auto simp: sent_def)

lemma sent_stop:
  assumes "io_code rc \<or> rc = TPM_INVALID_PARAM" and "rc \<noteq> 0" and "reg_writes tr \<in> ready_writes base"
    and "writes_upto rc (reg_writes tr') part" and "prefix part (send_script bo base buf)"
  shows "sent bo base buf rc (tr @ tr')"
proof -
  obtain rest where "send_script bo base buf = part @ rest" using assms(5) by (auto simp: prefix_def)
  with writes_upto_go [OF writes_upto_stop [OF assms(4,2), of rest], of "reg_writes tr"] assms(1,3)
  show ?thesis by (auto simp: sent_def)
qed

lemma prefix_script:
  "prefix [] (send_script bo base buf)"
  "prefix (map (Pair (fifo_addr base)) (hdr_bytes bo (header buf))) (send_script bo base buf)"
  "prefix (map (Pair (fifo_addr base)) (cmd_bytes bo buf)) (send_script bo base buf)"
  by (auto simp: send_script_def cmd_bytes_def)

lemma sent_go:
  assumes "reg_writes tr \<in> ready_writes base"
    and "writes_upto 0 (reg_writes tr') (map (Pair (fifo_addr base)) (cmd_bytes bo buf))"
    and "io_code rc" and "writes_upto rc (reg_writes tr'') [(status_addr base, TPM_STAT_GO)]"
  shows "sent bo base buf rc (tr @ tr' @ tr'')"
proof -
  have "reg_writes (tr @ tr' @ tr'') =
      reg_writes tr @ map (Pair (fifo_addr base)) (cmd_bytes bo buf) @ reg_writes tr''"
    using writes_upto_done [OF assms(2)] by simp
  then show ?thesis
    using assms(1,3) by (auto simp: sent_def send_script_def intro!: bexI [of _ "reg_writes tr"]
        writes_upto_go assms(4) [simplified])
qed

text \<open>Header and data together are the bytes of the command.\<close>

lemma cmd_bytes_writes:
  assumes "writes_upto 0 ws (map f (hdr_bytes bo (header buf)))"
    and "writes_upto rc ws' (map f
      (take (unat (be32toh bo (cmd_size (header buf))) - TPM_HEADER_SIZE) (data buf)))"
  shows "writes_upto rc (ws @ ws') (map f (cmd_bytes bo buf))"
  using assms by (simp add: cmd_bytes_def writes_upto_def)

lemma traced_send:
  assumes base: "base = LOCALITY_START_ADDRESS (locality chip)"
  shows "traced (tpm2_fifo_send bo (Some chip) buf) (sent bo base buf)"
proof -
  have size: "(length (hdr_bytes bo (header buf)) \<noteq> TPM_HEADER_SIZE) = False" by simp
  show ?thesis
    unfolding tpm2_fifo_send_def deref_simps andthen_ret Let_def base [symmetric] size if_False
      status_addr_def [symmetric]
  proof (rule traced_andthen [OF traced_read], intro traced_prod traced_if
      traced_andthen [OF traced_prepare_if [OF base]]
      traced_andthen [OF traced_write_fifo_bytes], goal_cases)
    case (1 a tr rc status)
    then show ?case
      by (intro traced_ret sent_not_ready [of _ "[]"]) (auto simp: ready_writes_def writes_upto_def)
  next
    case (2 a tr rc status rc' tr')
    then show ?case by (auto intro!: sent_not_ready)
  next
    case (3 a tr rc status rc' tr' rc'' tr'')
    then have "reg_writes (tr @ tr') \<in> ready_writes base"
      using io_code_nonpos [of rc'] by (auto dest: writes_upto_done)
    with 3 show ?case
      using sent_stop [of rc'' "tr @ tr'" base tr'', OF _ _ _ _ prefix_script(2)] by auto
  next
    case (4 a tr rc status rc' tr' rc'' tr'')
    then have "reg_writes (tr @ tr') \<in> ready_writes base" and "rc'' = 0"
      using io_code_nonpos [of rc'] io_code_nonpos [of rc''] by (auto dest: writes_upto_done)
    with 4 show ?case
      using sent_stop [of TPM_INVALID_PARAM "tr @ tr'" base tr'', OF _ _ _ _ prefix_script(2), of bo buf]
      by (auto simp: writes_upto_def)
  next
    case (5 a tr rc status rc' tr' rc'' tr'')
    then have pre: "reg_writes (tr @ tr') \<in> ready_writes base" and zero: "rc'' = 0"
      using io_code_nonpos [of rc'] io_code_nonpos [of rc''] by (auto dest: writes_upto_done)
    have len: "TPM_HEADER_SIZE \<le> unat (be32toh bo (cmd_size (header buf)))" using 5 by simp
    have hdr: "writes_upto 0 (reg_writes tr'') (map (Pair (fifo_addr base)) (hdr_bytes bo (header buf)))"
      using 5 zero by simp
    show ?case
    proof (rule traced_andthen [OF traced_send_loop [OF len base]], rule traced_if, goal_cases)
      case (1 e u)
      then show ?case
        using sent_stop [of e "tr @ tr'" base "tr'' @ u", OF _ _ pre _ prefix_script(3), of bo buf]
          cmd_bytes_writes [OF hdr, of e "reg_writes u"] by auto
    next
      case (2 e u)
      then have w: "writes_upto 0 (reg_writes (tr'' @ u)) (map (Pair (fifo_addr base)) (cmd_bytes bo buf))"
        using cmd_bytes_writes [OF hdr, of e "reg_writes u"] io_code_nonpos [of e] by auto
      show ?case
        by (rule traced_mono [OF traced_send_finish]) (use sent_go [OF pre w] in simp)
    qed
  qed
qed

end
