(* ===== verification/TPM_Recv.thy ===== *)
theory TPM_Recv
  imports TPM_Trace
begin

unbundle bit_operations_syntax

text \<open>
  What \<^verbatim>\<open>tpm2_fifo_receive\<close> reads and where it puts it: the first ten bytes of the data
  FIFO become the header, the following ones the start of the data array, in order. The
  number of bytes read after the header is at least the number the header announces and
  at most ten more; the loop compares \<^verbatim>\<open>loop_index\<close>, which counts data bytes, with the
  size of the whole response.
\<close>

section \<open>Bytes stored by consecutive reads\<close>

definition overlay :: "'a list \<Rightarrow> nat \<Rightarrow> 'a list \<Rightarrow> 'a list" where
  "overlay xs i ys = take i xs @ ys @ drop (i + length ys) xs"

lemma length_overlay [simp]: "i + length ys \<le> length xs \<Longrightarrow> length (overlay xs i ys) = length xs"
  by (simp add: overlay_def)

lemma overlay_Nil [simp]: "overlay xs i [] = xs"
  by (simp add: overlay_def)

lemma overlay_full: "length ys = length xs \<Longrightarrow> overlay xs 0 ys = ys"
  by (simp add: overlay_def)

lemma overlay_snoc:
  assumes "i + length ys < length xs"
  shows "(overlay xs i ys)[i + length ys := b] = overlay xs i (ys @ [b])"
proof -
  have "drop (i + length ys) xs = xs ! (i + length ys) # drop (Suc (i + length ys)) xs"
    using assms by (simp add: Cons_nth_drop_Suc)
  then show ?thesis using assms
    by (simp add: overlay_def list_update_append min_def)
qed

lemma overlay_Cons:
  assumes "i < length xs"
  shows "overlay (xs[i := y]) (Suc i) ys = overlay xs i (y # ys)"
  using assms by (simp add: overlay_def take_Suc_conv_app_nth)

definition target_size :: "read_target \<Rightarrow> tpm_cmd \<Rightarrow> nat" where
  "target_size dst buf = (case dst of Read_Header \<Rightarrow> TPM_HEADER_SIZE | Read_Data \<Rightarrow> length (data buf))"

definition store :: "byte_order \<Rightarrow> read_target \<Rightarrow> tpm_cmd \<Rightarrow> nat \<Rightarrow> byte list \<Rightarrow> tpm_cmd" where
  "store bo dst buf i ys =
     (case dst of
        Read_Header \<Rightarrow> buf\<lparr>header := hdr_of_bytes bo (overlay (hdr_bytes bo (header buf)) i ys)\<rparr>
      | Read_Data \<Rightarrow> buf\<lparr>data := overlay (data buf) i ys\<rparr>)"

lemma store_Nil [simp]: "store bo dst buf i [] = buf"
  by (simp add: store_def split: read_target.split)

lemma target_size_store [simp]:
  "i + length ys \<le> target_size dst buf \<Longrightarrow> target_size dst (store bo dst buf i ys) = target_size dst buf"
  by (auto simp: target_size_def store_def split: read_target.split)

lemma in_target_iff: "in_target dst buf i \<longleftrightarrow> 0 \<le> i \<and> nat i < target_size dst buf"
  by (auto simp: in_target_def target_size_def split: read_target.split)

lemma store_snoc:
  assumes "i + length ys < target_size dst buf"
  shows "set_byte bo dst (store bo dst buf i ys) (i + length ys) b = store bo dst buf i (ys @ [b])"
  using assms
  by (cases dst) (simp_all add: store_def set_byte_def target_size_def overlay_snoc)

section \<open>The receive loops\<close>

text \<open>
  After reading \<open>ys\<close> from the FIFO: they are stored from position \<open>i\<close> on, inside the
  object, and both counters have advanced by their number.
\<close>

definition received ::
  "byte_order \<Rightarrow> u16 \<Rightarrow> read_target \<Rightarrow> tpm_cmd \<Rightarrow> nat \<Rightarrow> int \<Rightarrow> tpm_cmd \<Rightarrow> int \<Rightarrow> int \<Rightarrow> reg_op list \<Rightarrow> bool"
where
  "received bo base dst buf i sz buf' li sz' tr \<longleftrightarrow>
     reg_writes tr = [] \<and>
     (let ys = reg_reads (fifo_addr base) tr in
        buf' = store bo dst buf i ys \<and> li = int (i + length ys) \<and> sz' = sz + int (length ys) \<and>
        (ys \<noteq> [] \<longrightarrow> i + length ys \<le> target_size dst buf))"

lemma received_start: "received bo base dst buf i sz buf (int i) sz []"
  by (simp add: received_def)

lemma received_quiet:
  "received bo base dst buf i sz buf' li sz' tr \<Longrightarrow> quiet (fifo_addr base) tr' \<Longrightarrow>
    received bo base dst buf i sz buf' li sz' (tr @ tr')"
  by (simp add: received_def quiet_def)

lemma received_failed:
  "received bo base dst buf i sz buf' li sz' tr \<Longrightarrow> rc \<noteq> 0 \<Longrightarrow>
    received bo base dst buf i sz buf' li sz' (tr @ [Reg_Read reg b rc])"
  by (simp add: received_def)

lemma received_byte:
  assumes "received bo base dst buf i sz buf' li sz' tr" and "in_target dst buf' li"
  shows "received bo base dst buf i sz (set_byte bo dst buf' (nat li) b) (li + 1) (sz' + 1)
    (tr @ [Reg_Read (fifo_addr base) b 0])"
proof -
  define ys where "ys = reg_reads (fifo_addr base) tr"
  have buf': "buf' = store bo dst buf i ys" and li: "nat li = i + length ys"
    and fits: "ys \<noteq> [] \<longrightarrow> i + length ys \<le> target_size dst buf"
    using assms(1) by (auto simp: received_def ys_def Let_def)
  have "target_size dst buf' = target_size dst buf"
    using fits buf' by (cases "ys = []") simp_all
  then have "i + length ys < target_size dst buf"
    using assms(2) li by (simp add: in_target_iff)
  then show ?thesis
    using assms(1) store_snoc [of i ys dst buf bo b] li
    by (auto simp: received_def Let_def ys_def [symmetric] buf')
qed

lemma traced_recv_burst:
  "received bo base dst buf i sz buf' li sz' tr \<Longrightarrow>
    traced (recv_burst bo n base dst read_size buf' li sz')
      (\<lambda>(rc, b, l, s) tr'. io_code rc \<and>
         (\<exists>b'. received bo base dst buf i sz b' l s (tr @ tr') \<and> (rc = 0 \<longrightarrow> b = b')) \<and>
         l \<le> max li read_size)"
proof (induction n arbitrary: buf' li sz' tr)
  case 0
  then show ?case by auto
next
  case (Suc n)
  show ?case
    unfolding recv_burst.simps fifo_addr_def [symmetric] Let_def
  proof (intro traced_if traced_fail traced_andthen [OF traced_read] traced_prod, goal_cases)
    case (1 a tr' rc b)
    then show ?case using received_failed [OF Suc.prems, of rc "fifo_addr base" b] by auto
  next
    case (2 a tr' rc b)
    then have tr': "tr' = [Reg_Read (fifo_addr base) b 0]" using io_code_nonpos [of rc] by auto
    have "received bo base dst buf i sz (set_byte bo dst buf' (nat li) b) (li + 1) (sz' + 1) (tr @ tr')"
      unfolding tr' using 2 by (intro received_byte [OF Suc.prems]) simp
    from Suc.IH [OF this] show ?case
      by (rule traced_mono) (use 2 in auto)
  next
    case 3
    then show ?case using Suc.prems by auto
  qed
qed

lemma traced_recv_loop:
  assumes "base = LOCALITY_START_ADDRESS (locality chip)"
  shows "traced (loop (recv_body bo (Some chip) base dst read_size) (buf, int i, sz))
    (\<lambda>(rc, b, s) tr. io_code rc \<and>
       (\<exists>l b'. received bo base dst buf i sz b' l s tr \<and> l \<le> max (int i) read_size \<and> (rc = 0 \<longrightarrow> b = b')) \<and>
       (rc = 0 \<longrightarrow> read_size \<le> s) \<and> (read_size \<le> sz \<longrightarrow> reg_reads (fifo_addr base) tr = []))"
proof (rule traced_loop [where I = "\<lambda>(b, l, s) tr. received bo base dst buf i sz b l s tr \<and>
    l \<le> max (int i) read_size \<and> (read_size \<le> sz \<longrightarrow> reg_reads (fifo_addr base) tr = [])"], goal_cases)
  case (1 x tr)
  obtain b l s where x: "x = (b, l, s)" by (cases x) auto
  have I: "received bo base dst buf i sz b l s tr" "l \<le> max (int i) read_size"
    "read_size \<le> sz \<longrightarrow> reg_reads (fifo_addr base) tr = []" using 1 x by auto
  have s: "read_size \<le> s" if "read_size \<le> sz" using I(1,3) that by (simp add: received_def)
  show ?case
    unfolding x recv_body_def prod.case
  proof (intro traced_if, goal_cases)
    case 1
    show ?case
    proof (rule traced_andthen [OF traced_get_burstcount [of chip, folded assms]],
        intro traced_prod traced_if, goal_cases)
      case (1 a tr' rc n)
      then have "received bo base dst buf i sz b l s (tr @ tr')"
        using received_quiet [OF I(1)] by auto
      with 1 show ?case using I(2) s \<open>s < read_size\<close> by (fastforce simp: quiet_def)
    next
      case (2 a tr' rc n)
      then have q: "received bo base dst buf i sz b l s (tr @ tr')"
        using received_quiet [OF I(1)] by auto
      show ?case
        by (rule traced_andthen [OF traced_recv_burst [OF q]])
          (use I(2) s \<open>s < read_size\<close> in \<open>force dest: io_code_nonpos\<close>)
    qed
  next
    case 2
    then show ?case using I s by auto
  qed
next
  case 2
  show ?case by (simp add: received_start)
qed

text \<open>The two uses of \<^verbatim>\<open>tpm2_fifo_read_data\<close>.\<close>

lemma traced_read_header:
  assumes "base = LOCALITY_START_ADDRESS (locality chip)"
  shows "traced (tpm2_fifo_read_data bo (Some chip) buf base st 0 TPM_READ_HEADER)
    (\<lambda>(rc, b, s) tr. io_code rc \<and> reg_writes tr = [] \<and>
       (let hs = reg_reads (fifo_addr base) tr in
          rc = 0 \<longrightarrow> length hs = TPM_HEADER_SIZE \<and> s = int TPM_HEADER_SIZE \<and>
            b = buf\<lparr>header := hdr_of_bytes bo hs\<rparr>))"
proof -
  have eq: "(TPM_READ_HEADER = TPM_READ_HEADER) = True" by simp
  show ?thesis
    unfolding tpm2_fifo_read_data_def eq if_True Let_def prod.case deref_simps andthen_ret
      status_addr_def [symmetric]
  proof (intro traced_deref traced_andthen [OF traced_wait_reg_bits [OF fifo_addr_distinct(3)]]
      traced_prod traced_if, goal_cases)
    case (1 tmo a tr rc st')
    then show ?case by (auto simp: quiet_def wait_done_def)
  next
    case (2 tmo a tr rc st')
    show ?case
    proof (rule traced_mono [OF traced_recv_loop [OF assms, of _ _ _ _ 0, simplified]], goal_cases)
      case (1 x tr')
      then show ?case using 2
        by (auto simp: quiet_def received_def Let_def store_def overlay_full)
    qed
  qed
qed

lemma traced_read_rest:
  assumes "base = LOCALITY_START_ADDRESS (locality chip)" and "0 \<le> n"
  shows "traced (tpm2_fifo_read_data bo (Some chip) buf base st (int TPM_HEADER_SIZE) n)
    (\<lambda>(rc, b, s) tr. io_code rc \<and> reg_writes tr = [] \<and>
       (let ds = reg_reads (fifo_addr base) tr in
          s = int (TPM_HEADER_SIZE + length ds) \<and> int (length ds) \<le> n \<and>
          (n \<le> int TPM_HEADER_SIZE \<longrightarrow> ds = []) \<and>
          (rc = 0 \<longrightarrow> n \<le> s) \<and> length ds \<le> length (data buf) \<and>
          (rc = 0 \<longrightarrow> b = buf\<lparr>data := overlay (data buf) 0 ds\<rparr>)))"
proof -
  have eq: "(n = TPM_READ_HEADER) = False" using assms(2) by simp
  have z: "int TPM_HEADER_SIZE - int TPM_HEADER_SIZE = int 0" by simp
  show ?thesis
    unfolding tpm2_fifo_read_data_def eq if_False Let_def prod.case deref_simps andthen_ret
      status_addr_def [symmetric] z
  proof (intro traced_deref traced_andthen [OF traced_wait_reg_bits [OF fifo_addr_distinct(3)]]
      traced_prod traced_if, goal_cases)
    case (1 tmo a tr rc st')
    then show ?case using assms(2) by (auto simp: quiet_def wait_done_def)
  next
    case (2 tmo a tr rc st')
    show ?case
    proof (rule traced_mono [OF traced_recv_loop [OF assms(1)]], goal_cases)
      case (1 x tr')
      then show ?case using 2 assms(2)
        by (cases "reg_reads (fifo_addr base) tr' = []")
          (auto simp: quiet_def received_def Let_def store_def target_size_def)
    qed
  qed
qed

section \<open>The whole response\<close>

text \<open>The size announced by ten header bytes.\<close>

definition announced :: "byte list \<Rightarrow> nat" where
  "announced hs = unat (of_be32 (hs ! 2) (hs ! 3) (hs ! 4) (hs ! 5))"

definition got_response ::
  "byte_order \<Rightarrow> tpm_cmd \<Rightarrow> int \<Rightarrow> tpm_cmd \<Rightarrow> byte list \<Rightarrow> byte list \<Rightarrow> bool" where
  "got_response bo buf rc buf' hs ds \<longleftrightarrow>
     length hs = TPM_HEADER_SIZE \<and> announced hs \<le> sizeof_tpm_cmd \<and>
     buf' = \<lparr>header = hdr_of_bytes bo hs, data = overlay (data buf) 0 ds\<rparr> \<and>
     length ds \<le> length (data buf) \<and>
     (if announced hs \<le> TPM_HEADER_SIZE then ds = []
      else announced hs - TPM_HEADER_SIZE \<le> length ds \<and> length ds \<le> announced hs) \<and>
     rc = (if announced hs = TPM_HEADER_SIZE then int TPM_HEADER_SIZE else TPM_SUCCESS)"

text \<open>A signed 32-bit size that passes the comparison is the unsigned one.\<close>

lemma size_check:
  fixes w :: u32
  shows "(word_of_int (sint w) :: u64) > 256 \<longleftrightarrow> unat w > 256"
    and "unat w \<le> 256 \<Longrightarrow> sint w = int (unat w)"
proof -
  have lt: "uint w < 2 ^ 32" using uint_lt2p [of w] by simp
  have s: "sint w = uint w - 2 ^ 32 * of_bool (bit (uint w) 31)"
    using lt by (simp add: sint_uint signed_take_bit_eq_take_bit_minus take_bit_int_eq_self)
  have high: "2 ^ 31 \<le> uint w" if "bit (uint w) 31"
  proof (rule ccontr)
    assume "\<not> 2 ^ 31 \<le> uint w"
    then have "take_bit 31 (uint w) = uint w" by (simp add: take_bit_int_eq_self_iff)
    then show False using that by (metis bit_take_bit_iff less_irrefl)
  qed
  have u: "uint (word_of_int (sint w) :: u64) = sint w mod 2 ^ 64"
    by (subst uint_word_of_int_eq) (simp add: take_bit_eq_mod)
  have m: "sint w mod 2 ^ 64 = (if bit (uint w) 31 then uint w - 2 ^ 32 + 2 ^ 64 else uint w)"
  proof (cases "bit (uint w) 31")
    case True
    then have "sint w = uint w - 2 ^ 32" using s by simp
    then have "sint w mod 2 ^ 64 = (uint w - 2 ^ 32 + 2 ^ 64) mod 2 ^ 64"
      by (simp only: mod_add_self2)
    also have "\<dots> = uint w - 2 ^ 32 + 2 ^ 64" using high [OF True] lt by simp
    finally show ?thesis using True by simp
  next
    case False
    then show ?thesis using s lt by simp
  qed
  have un: "unat w > 256 \<longleftrightarrow> uint w > 256"
    using uint_nat [of w] by linarith
  have n: "uint (256 :: u64) = 256" by simp
  show "(word_of_int (sint w) :: u64) > 256 \<longleftrightarrow> unat w > 256"
  proof (cases "bit (uint w) 31")
    case True
    then have "uint w - 2 ^ 32 + 2 ^ 64 > 256" "uint w > 256" using high by simp_all
    then show ?thesis using True by (simp only: word_less_def u m un n if_True simp_thms)
  next
    case False
    then show ?thesis by (simp only: word_less_def u m un n if_False)
  qed
  show "sint w = int (unat w)" if "unat w \<le> 256"
  proof -
    have "\<not> bit (uint w) 31" using that un high by auto
    then show ?thesis using s by simp
  qed
qed
lemma announced_header:
  "be32toh bo (cmd_size (hdr_of_bytes bo hs)) = of_be32 (hs ! 2) (hs ! 3) (hs ! 4) (hs ! 5)"
  by (simp add: hdr_of_bytes_def)

lemma announced_size:
  fixes b :: tpm_cmd
  assumes "b = buf\<lparr>header := hdr_of_bytes bo hs\<rparr>" and "n = sint (be32toh bo (cmd_size (header b)))"
  shows "(word_of_int n :: u64) > of_nat sizeof_tpm_cmd \<longleftrightarrow> announced hs > sizeof_tpm_cmd"
    and "announced hs \<le> sizeof_tpm_cmd \<Longrightarrow> n = int (announced hs)"
  using size_check [of "be32toh bo (cmd_size (header b))"] assms
  by (simp_all add: announced_header announced_def)

lemma traced_receive_rest:
  assumes base: "base = LOCALITY_START_ADDRESS (locality chip)"
    and hs: "length hs = TPM_HEADER_SIZE" and b: "b = buf\<lparr>header := hdr_of_bytes bo hs\<rparr>"
    and sz: "sz = int TPM_HEADER_SIZE" and n: "n = sint (be32toh bo (cmd_size (header b)))"
  shows "traced
    (if (word_of_int n :: u64) > of_nat sizeof_tpm_cmd then ret (TPM_INVALID_PARAM, b) else
     if sz = n then ret (sz, b) else
     andthen (tpm2_fifo_read_data bo (Some chip) b base 0 sz n) (\<lambda>(err, buf, sz).
     if err < 0 then ret (err, buf) else
     if sz < n then ret (TPM_ERR_RESPONSE, buf) else
     ret (TPM_SUCCESS, buf)))
    (\<lambda>(rc, b') tr. reg_writes tr = [] \<and>
       (rc < 0 \<longrightarrow> io_code rc \<or> rc = TPM_INVALID_PARAM) \<and>
       (0 \<le> rc \<longrightarrow> got_response bo buf rc b' hs (reg_reads (fifo_addr base) tr)))"
proof (intro traced_if, goal_cases)
  case 1
  then show ?case by auto
next
  case 2
  then have "announced hs \<le> sizeof_tpm_cmd" "n = int (announced hs)"
    using announced_size [OF b n] by simp_all
  with 2 show ?case by (auto simp: got_response_def hs b sz)
next
  case 3
  then have small: "announced hs \<le> sizeof_tpm_cmd" and nn: "n = int (announced hs)"
    using announced_size [OF b n] by simp_all
  then have pos: "0 \<le> n" by simp
  show ?case
    unfolding sz
  proof (rule traced_andthen [OF traced_read_rest [OF base pos]], intro traced_prod traced_if, goal_cases)
    case (3 a tr rc x b' sz')
    then have "rc = 0" using io_code_nonpos [of rc] by auto
    with 3 nn small show ?case using \<open>sz \<noteq> n\<close>
      by (auto simp: got_response_def hs b sz Let_def)
  qed (auto simp: Let_def dest: io_code_nonpos)
qed

lemma traced_receive:
  assumes base: "base = LOCALITY_START_ADDRESS (locality chip)"
  shows "traced (tpm2_fifo_receive bo (Some chip) buf)
    (\<lambda>(rc, b) tr. reg_writes tr = [] \<and>
       (rc < 0 \<longrightarrow> io_code rc \<or> rc = TPM_INVALID_PARAM) \<and>
       (0 \<le> rc \<longrightarrow> (\<exists>hs ds. reg_reads (fifo_addr base) tr = hs @ ds \<and> got_response bo buf rc b hs ds)))"
  unfolding tpm2_fifo_receive_def deref_simps andthen_ret Let_def base [symmetric]
proof (rule traced_andthen [OF traced_read_header [OF base]], intro traced_prod, rule traced_if, goal_cases)
  case (1 a tr rc x b s)
  then show ?case by auto
next
  case (2 a tr rc x b s)
  then have hdr: "length (reg_reads (fifo_addr base) tr) = TPM_HEADER_SIZE" "s = int TPM_HEADER_SIZE"
    "b = buf\<lparr>header := hdr_of_bytes bo (reg_reads (fifo_addr base) tr)\<rparr>" "reg_writes tr = []"
    using io_code_nonpos [of rc] by (auto simp: Let_def)
  show ?case
    by (rule traced_mono [OF traced_receive_rest [OF base hdr(1,3,2) refl]])
      (use hdr(4) in fastforce)
qed

end
