(* ===== verification/TPM_Live.thy ===== *)
theory TPM_Live
  imports TPM_Recv
begin

unbundle bit_operations_syntax

text \<open>
  Termination and absence of faults in the FIFO layer. The polling loops end only if the
  timer runs out; the locale \<open>fair_timer\<close> says what is needed of it: a measure of the
  remaining time that no platform call increases and that every unsuccessful poll
  decreases. It is interpreted on the POSIX timer of the library over a clock that moves,
  on top of an arbitrary SPI platform.
\<close>

section \<open>A library that is set up\<close>

definition ready :: "'p tpm_spi_ops \<Rightarrow> 'p timeout_ops \<Rightarrow> 'p tpm_lib \<Rightarrow> bool" where
  "ready D T s \<longleftrightarrow> tpm_spidev s = Some \<lparr>ops = D\<rparr> \<and> tpm_timeout_ops s = Some T"

lemma ready_same_globals: "same_globals s t \<Longrightarrow> ready D T t \<longleftrightarrow> ready D T s"
  by (simp add: ready_def same_globals_def)

section \<open>What the receive loops keep\<close>

lemma target_size_set_byte:
  "target_size dst (set_byte bo dst buf i b) = target_size dst buf"
  by (simp add: target_size_def set_byte_def split: read_target.split)

definition burst_read :: "read_target \<Rightarrow> tpm_cmd \<Rightarrow> int \<Rightarrow> int \<Rightarrow> int \<times> tpm_cmd \<times> int \<times> int \<Rightarrow> bool" where
  "burst_read dst buf li sz = (\<lambda>(rc, b, l, s).
     io_code rc \<and> target_size dst b = target_size dst buf \<and> li \<le> l \<and> s - l = sz - li)"

text \<open>
  \<^verbatim>\<open>tpm2_fifo_receive\<close> leaves its buffer only if the header it has read announces more
  bytes than the data array has room for, and not so many that the size check refuses them.
\<close>

definition too_long :: "byte_order \<Rightarrow> tpm_cmd \<Rightarrow> bool" where
  "too_long bo b \<longleftrightarrow> (let n = unat (be32toh bo (cmd_size (header b))) in
     length (data b) < n \<and> n \<le> sizeof_tpm_cmd)"

section \<open>Fair timers\<close>

locale fair_timer =
  fixes D :: "'p tpm_spi_ops" and T :: "'p timeout_ops" and left :: "u64 \<Rightarrow> 'p \<Rightarrow> nat"
  assumes poll_law: "\<not> fst (timeout_elapsed T d p) \<Longrightarrow> left d (snd (timeout_elapsed T d p)) < left d p"
    and poll_mono: "left d (snd (timeout_elapsed T d' p)) \<le> left d p"
    and init_mono: "left d (snd (timeout_init_us T us p)) \<le> left d p"
    and get_access_mono: "left d (snd (get_access D p)) \<le> left d p"
    and start_mono: "left d (start D p) \<le> left d p"
    and xfer_mono: "left d (snd (snd (xfer D n out inp p))) \<le> left d p"
    and stop_mono: "left d (stop D p) \<le> left d p"
    and release_mono: "left d (release_access D p) \<le> left d p"
begin

text \<open>Every operation keeps the set-up and never gains time.\<close>

definition onward :: "'p tpm_lib \<Rightarrow> 'p tpm_lib \<Rightarrow> bool" where
  "onward s t \<longleftrightarrow>
     same_globals s t \<and> (ready D T s \<longrightarrow> (\<forall>d. left d (plat t) \<le> left d (plat s)))"

lemma onward_refl: "onward s s"
  by (simp add: onward_def)

lemma onward_trans: "onward s t \<Longrightarrow> onward t u \<Longrightarrow> onward s u"
  unfolding onward_def
  by (meson ready_same_globals order_trans same_globals_trans)

lemma transfer_onward:
  "wp True True (tpm2_spi_transfer out inp len) (\<lambda>_ t. onward s t) s"
  using xfer_mono [of _ "ucast len" out inp "plat s"]
  by (auto simp: wp_spi_transfer onward_def same_globals_def ready_def split: option.split prod.split)

lemma init_onward: "wp True True tpm2_spi_init (\<lambda>_ t. onward s t) s"
  using get_access_mono [of _ "plat s"]
  by (auto simp: tpm2_spi_init_def wp_simps onward_def same_globals_def ready_def
      split: option.split prod.split intro: order_trans [OF start_mono])

lemma end_onward: "wp True True tpm2_spi_end_transaction (\<lambda>_ t. onward s t) s"
  by (auto simp: wp_end_transaction onward_def same_globals_def ready_def
      split: option.split intro: order_trans [OF release_mono stop_mono])

lemma onward_seq:
  assumes "wp True True m (\<lambda>_ t. onward s t) s"
    and "\<And>a t. wp True True (k a) (\<lambda>_ u. onward t u) t"
  shows "wp True True (andthen m k) (\<lambda>_ u. onward s u) s"
  by (rule wp_seq [OF assms(1)]) (blast intro: wp_mono [OF assms(2)] onward_trans)

lemma poll_onward: "wp True True (wait_state_poll n) (\<lambda>_ t. onward s t) s"
proof (induction n arbitrary: s)
  case 0
  then show ?case by (simp add: wp_simps onward_refl)
next
  case (Suc n)
  show ?case
    unfolding wait_state_poll.simps
    by (rule onward_seq [OF transfer_onward]) (auto simp: wp_simps onward_refl Suc.IH)
qed

lemma start_transaction_onward:
  "wp True True (tpm2_spi_start_transaction reg access len) (\<lambda>_ t. onward s t) s"
  unfolding tpm2_spi_start_transaction_def
  by (auto simp: wp_if wp_ret onward_refl poll_onward simp del: RETRY_COUNT_def
      intro!: onward_seq [OF transfer_onward])

lemma end_ret_onward:
  "wp True True (andthen tpm2_spi_end_transaction (\<lambda>_. ret x)) (\<lambda>_ t. onward s t) s"
  by (rule onward_seq [OF end_onward]) (simp add: wp_ret onward_refl)

lemma fifo_io_onward: "wp True True (tpm2_fifo_io reg access len val) (\<lambda>_ t. onward s t) s"
  unfolding tpm2_fifo_io_def
  by (rule onward_seq [OF init_onward])
    (auto simp: wp_if wp_ret onward_refl end_ret_onward Let_def
      intro!: onward_seq [OF start_transaction_onward] onward_seq [OF transfer_onward])

lemma timer_init_onward: "wp True True (call_timeout_init_us us) (\<lambda>_ t. onward s t) s"
  using init_mono [of _ us "plat s"]
  by (auto simp: call_timeout_init_us_def deref_def wp_simps onward_def same_globals_def ready_def
      split: option.split prod.split)

lemma timer_poll_onward: "wp True True (call_timeout_elapsed d) (\<lambda>_ t. onward s t) s"
  using poll_mono [of _ d "plat s"]
  by (auto simp: call_timeout_elapsed_def deref_def wp_simps onward_def same_globals_def ready_def
      split: option.split prod.split)

end

sublocale fair_timer \<subseteq> lib_preorder onward
proof
  show "onward s t" if "tpm2_fifo_io reg access len val s = Some (Inr (x, t))" for reg access len val s x t
    by (rule wp_returns [OF fifo_io_onward that])
  show "onward s t" if "call_timeout_init_us us s = Some (Inr (d, t))" for us s d t
    by (rule wp_returns [OF timer_init_onward that])
  show "onward s t" if "call_timeout_elapsed d s = Some (Inr (b, t))" for d s b t
    by (rule wp_returns [OF timer_poll_onward that])
qed (fact onward_refl onward_trans)+

context fair_timer
begin

lemma wp_traced:
  assumes "traced m P" and "wp h f m Q s"
  shows "wp h f m (\<lambda>a t. Q a t \<and> onward s t \<and> (\<exists>tr. P a tr)) s"
  using assms tracedD [OF assms(1)] R_run
  unfolding wp_def by (fastforce split: option.splits sum.splits)

lemma ready_onward: "onward s t \<Longrightarrow> ready D T s \<Longrightarrow> ready D T t"
  unfolding onward_def using ready_same_globals by blast

section \<open>Every call returns\<close>

lemma read_live:
  assumes "ready D T s"
  shows "wp False False (tpm2_fifo_read_byte reg old) (\<lambda>(rc, v) t. io_code rc \<and> onward s t) s"
proof -
  have "tpm_spidev s = Some \<lparr>ops = D\<rparr>" using assms by (simp add: ready_def)
  from wp_traced [OF traced_read read_byte_total [OF this]] show ?thesis
    by (rule wp_mono) auto
qed

lemma write_live:
  assumes "ready D T s"
  shows "wp False False (tpm2_fifo_write_byte reg b) (\<lambda>rc t. io_code rc \<and> onward s t) s"
proof -
  have "tpm_spidev s = Some \<lparr>ops = D\<rparr>" using assms by (simp add: ready_def)
  from wp_traced [OF traced_write write_byte_total [OF this]] show ?thesis
    by (rule wp_mono) auto
qed

lemma timer_init_live:
  assumes "ready D T s"
  shows "wp False False (call_timeout_init_us us) (\<lambda>_ t. onward s t) s"
proof -
  have "wp False False (call_timeout_init_us us) (\<lambda>_ _. True) s"
    using assms by (simp add: call_timeout_init_us_def wp_simps ready_def split: prod.split)
  from wp_traced [OF traced_timer_init this] show ?thesis by (rule wp_mono) simp
qed

lemma timer_poll_live:
  assumes "ready D T s"
  shows "wp False False (call_timeout_elapsed d)
    (\<lambda>b t. onward s t \<and> (\<not> b \<longrightarrow> left d (plat t) < left d (plat s))) s"
proof -
  have "wp False False (call_timeout_elapsed d)
      (\<lambda>b t. \<not> b \<longrightarrow> left d (plat t) < left d (plat s)) s"
    using assms poll_law [of d "plat s"]
    by (auto simp: call_timeout_elapsed_def wp_simps ready_def split: prod.split)
  from wp_traced [OF traced_timer_poll this] show ?thesis by (rule wp_mono) simp
qed

text \<open>Sequencing calls that return.\<close>

lemma live_seq:
  assumes "ready D T s" and "wp False f m (\<lambda>a t. R a \<and> onward s t) s"
    and "\<And>a t. R a \<Longrightarrow> ready D T t \<Longrightarrow> wp False f (k a) (\<lambda>b u. Q b \<and> onward t u) t"
  shows "wp False f (andthen m k) (\<lambda>b u. Q b \<and> onward s u) s"
  by (rule wp_seq [OF assms(2)])
    (blast intro: wp_mono [OF assms(3)] ready_onward [OF _ assms(1)] onward_trans)

lemma left_le: "onward s t \<Longrightarrow> ready D T s \<Longrightarrow> left d (plat t) \<le> left d (plat s)"
  by (simp add: onward_def)

text \<open>A polling loop: each round returns, and one that goes on has used up time.\<close>

lemma poll_loop_live:
  assumes "ready D T s"
    and body: "\<And>x t. ready D T t \<Longrightarrow> wp False False (body x)
      (\<lambda>e u. onward t u \<and> (case e of Inl r \<Rightarrow> R r | Inr _ \<Rightarrow> left d (plat u) < left d (plat t))) t"
  shows "wp False False (loop body x) (\<lambda>r t. R r \<and> onward s t) s"
proof (rule wp_loop_total [where I = "\<lambda>_ t. onward s t" and measr = "\<lambda>_ t. left d (plat t)"])
  fix x t
  assume "onward s t"
  then show "wp False False (body x) (\<lambda>e u. case e of Inl r \<Rightarrow> R r \<and> onward s u
      | Inr y \<Rightarrow> onward s u \<and> left d (plat u) < left d (plat t)) t"
    by (intro wp_mono [OF body [OF ready_onward [OF _ assms(1)]]])
      (auto split: sum.splits intro: onward_trans)
qed (rule onward_refl)

lemma wait_body_live:
  assumes "ready D T t"
  shows "wp False False (wait_body reg bits d x)
    (\<lambda>e u. onward t u \<and> (case e of Inl (rc, _) \<Rightarrow> io_code rc | Inr _ \<Rightarrow> left d (plat u) < left d (plat t))) t"
  unfolding wait_body_def
proof (rule wp_seq [OF read_live [OF assms]], goal_cases)
  case (1 a u)
  then have u: "onward t u" "ready D T u" using ready_onward assms by auto
  from 1 show ?case
    by (auto simp: wp_simps u split: prod.splits
        intro!: wp_mono [OF timer_poll_live [OF u(2)]] onward_trans [OF u(1)]
        intro: less_le_trans [OF _ left_le [OF u(1) assms]])
qed

lemma wait_live:
  assumes "ready D T s"
  shows "wp False False (tpm2_wait_reg_bits reg bits tmo st) (\<lambda>(rc, _) t. io_code rc \<and> onward s t) s"
proof -
  have "wp False False (tpm2_wait_reg_bits reg bits tmo st) (\<lambda>r t. io_code (fst r) \<and> onward s t) s"
    unfolding tpm2_wait_reg_bits_def
  proof (rule live_seq [OF assms, where R = "\<lambda>_. True"])
    show "wp False False (call_timeout_init_us (ucast (tmo * 1000))) (\<lambda>a t. True \<and> onward s t) s"
      using timer_init_live [OF assms] by simp
    fix d t
    assume "ready D T t"
    then show "wp False False (loop (wait_body reg bits d) st) (\<lambda>b u. io_code (fst b) \<and> onward t u) t"
      by (rule poll_loop_live)
        (rule wp_mono [OF wait_body_live], assumption, auto split: sum.splits)
  qed
  then show ?thesis by (rule wp_mono) auto
qed

lemma burst_body_live:
  assumes "ready D T t"
  shows "wp False False (burst_body base d x)
    (\<lambda>e u. onward t u \<and> (case e of Inl (rc, n) \<Rightarrow> io_code rc \<and> (rc = 0 \<longrightarrow> n \<noteq> 0)
       | Inr _ \<Rightarrow> left d (plat u) < left d (plat t))) t"
  unfolding burst_body_def
proof (rule wp_seq [OF read_live [OF assms]], goal_cases)
  case (1 a u)
  then have u: "onward t u" "ready D T u" using ready_onward assms by auto
  obtain rc b0 where a: "a = (rc, b0)" by (cases a)
  show ?case
    unfolding a prod.case
  proof (rule wp_ifI, use 1 a u in \<open>simp add: wp_simps\<close>, rule wp_seq [OF read_live [OF u(2)]], goal_cases)
    case (1 a' v)
    then have v: "onward t v" "ready D T v" using ready_onward [OF _ u(2)] onward_trans [OF u(1)] by auto
    from 1 show ?case
      by (auto simp: wp_simps v Let_def split: prod.splits
          intro!: wp_mono [OF timer_poll_live [OF v(2)]] onward_trans [OF v(1)]
          intro: less_le_trans [OF _ left_le [OF v(1) assms]])
  qed
qed

lemma burstcount_live:
  assumes "ready D T s" and "timeouts chip = Some tm"
  shows "wp False False (tpm2_fifo_get_burstcount (Some chip) (Some b))
    (\<lambda>(rc, n) t. (io_code rc \<and> (rc = 0 \<longrightarrow> n \<noteq> 0)) \<and> onward s t) s"
proof -
  have "wp False False (tpm2_fifo_get_burstcount (Some chip) (Some b))
    (\<lambda>r t. (io_code (fst r) \<and> (fst r = 0 \<longrightarrow> snd r \<noteq> 0)) \<and> onward s t) s"
    unfolding tpm2_fifo_get_burstcount_def assms(2) deref_simps andthen_ret Let_def option.case
  proof (rule live_seq [OF assms(1), where R = "\<lambda>_. True"])
    show "wp False False (call_timeout_init_us (ucast (msec_a tm * 1000))) (\<lambda>a t. True \<and> onward s t) s"
      using timer_init_live [OF assms(1)] by simp
    fix d t
    assume "ready D T t"
    then show "wp False False (loop (burst_body (LOCALITY_START_ADDRESS (locality chip)) d) b)
        (\<lambda>r u. (io_code (fst r) \<and> (fst r = 0 \<longrightarrow> snd r \<noteq> 0)) \<and> onward t u) t"
      by (rule poll_loop_live)
        (rule wp_mono [OF burst_body_live], assumption, auto split: sum.splits)
  qed
  then show ?thesis by (rule wp_mono) auto
qed

lemma write_fifo_bytes_live:
  "ready D T s \<Longrightarrow> wp False False (write_fifo_bytes base bs) (\<lambda>rc t. io_code rc \<and> onward s t) s"
proof (induction bs arbitrary: s)
  case Nil
  then show ?case by (simp add: wp_simps onward_refl)
next
  case (Cons b bs)
  show ?case
    unfolding write_fifo_bytes.simps
    by (rule live_seq [OF Cons.prems write_live [OF Cons.prems]])
      (auto simp: wp_simps onward_refl intro: Cons.IH)
qed

lemma prepare_live:
  assumes "ready D T s" and "timeouts chip = Some tm"
  shows "wp False False (tpm2_fifo_prepare (Some chip)) (\<lambda>rc t. io_code rc \<and> onward s t) s"
  unfolding tpm2_fifo_prepare_def assms(2) deref_simps andthen_ret Let_def
proof (rule live_seq [OF assms(1) write_live [OF assms(1)]], rule wp_ifI, goal_cases)
  case (1 rc t)
  then show ?case by (simp add: wp_simps onward_refl)
next
  case (2 rc t)
  show ?case
    by (rule wp_seq [OF wait_live [OF 2(2)]]) (auto simp: wp_simps split: prod.splits)
qed

lemma send_burst_live:
  "ready D T s \<Longrightarrow> TPM_HEADER_SIZE \<le> i \<Longrightarrow> len \<le> TPM_HEADER_SIZE + length bs \<Longrightarrow>
    wp False False (send_burst n base bs len i)
      (\<lambda>r t. (io_code (fst r) \<and> i \<le> snd r \<and> (fst r = 0 \<and> 0 < n \<and> i < len \<longrightarrow> i < snd r)) \<and>
        onward s t) s"
proof (induction n arbitrary: i s)
  case 0
  then show ?case by (simp add: wp_simps onward_refl)
next
  case (Suc n)
  show ?case
  proof (cases "i < len")
    case True
    then have i: "i - TPM_HEADER_SIZE < length bs" using Suc.prems(2,3) by simp
    have "wp False False (andthen (tpm2_fifo_write_byte (reg_addr base TPM_FIFO_REG_DATA_FIFO)
          (bs ! (i - TPM_HEADER_SIZE))) (\<lambda>err. if err < 0 then ret (err, i)
          else send_burst n base bs len (i + 1)))
        (\<lambda>r t. (io_code (fst r) \<and> i \<le> snd r \<and> (fst r = 0 \<longrightarrow> i < snd r)) \<and> onward s t) s"
    proof (rule live_seq [OF Suc.prems(1) write_live [OF Suc.prems(1)]], rule wp_ifI, goal_cases)
      case (1 rc t)
      then show ?case by (simp add: wp_simps onward_refl)
    next
      case (2 rc t)
      show ?case
        by (rule wp_mono [OF Suc.IH [OF 2(2)]]) (use Suc.prems in auto)
    qed
    then show ?thesis
      using True i by (simp add: array_get_def del: TPM_HEADER_SIZE_def)
  next
    case False
    then show ?thesis by (simp add: wp_simps onward_refl)
  qed
qed

lemma send_loop_live:
  assumes "ready D T s" and "timeouts chip = Some tm" and len: "len \<le> TPM_HEADER_SIZE + length bs"
  shows "wp False False (loop (send_body (Some chip) base bs len) TPM_HEADER_SIZE)
    (\<lambda>rc t. io_code rc \<and> onward s t) s"
proof (rule wp_loop_total [where I = "\<lambda>i t. TPM_HEADER_SIZE \<le> i \<and> onward s t"
      and measr = "\<lambda>i _. len - i"])
  fix i t
  assume I: "TPM_HEADER_SIZE \<le> i \<and> onward s t"
  then have t: "ready D T t" using ready_onward assms(1) by blast
  show "wp False False (send_body (Some chip) base bs len i) (\<lambda>e u. case e of
      Inl rc \<Rightarrow> io_code rc \<and> onward s u
    | Inr j \<Rightarrow> (TPM_HEADER_SIZE \<le> j \<and> onward s u) \<and> len - j < len - i) t"
    unfolding send_body_def
  proof (rule wp_ifI, rule wp_seq [OF burstcount_live [OF t assms(2)]], goal_cases)
    case (1 a u)
    obtain rc n where a: "a = (rc, n)" by (cases a)
    with 1 have u: "onward s u" "ready D T u" using I ready_onward [OF _ t] onward_trans by auto
    show ?case
      unfolding a prod.case
    proof (rule wp_ifI, use 1 a u in \<open>simp add: wp_simps\<close>,
        rule wp_seq [OF send_burst_live [OF u(2) _ len]], goal_cases)
      case 1
      then show ?case using I by simp
    next
      case (2 b v)
      have "0 < unat n" using 1 a 2 by (simp add: unat_gt_0 io_code_def)
      with 1 2 I u show ?case
        by (auto simp: wp_simps split: prod.splits dest: io_code_nonpos intro: onward_trans)
    qed
  qed (use I in \<open>simp add: wp_simps\<close>)
qed (simp add: onward_refl)

lemma send_live:
  assumes "ready D T s" and "timeouts chip = Some tm"
    and "unat (be32toh bo (cmd_size (header buf))) \<le> TPM_HEADER_SIZE + length (data buf)"
  shows "wp False False (tpm2_fifo_send bo (Some chip) buf) (\<lambda>_ t. onward s t) s"
proof -
  have size: "(length (hdr_bytes bo (header buf)) \<noteq> TPM_HEADER_SIZE) = False" by simp
  have prep: "wp False False (if c then tpm2_fifo_prepare (Some chip) else ret TPM_SUCCESS)
      (\<lambda>rc t. io_code rc \<and> onward u t) u" if "ready D T u" for u c
    using prepare_live [OF that assms(2)] by (simp add: wp_simps onward_refl)
  have finish: "wp False False (andthen
      (tpm2_wait_reg_bits reg bits tmo st) (\<lambda>(err, status). if err < 0 then ret err else
       if status AND TPM_STAT_EXPECT \<noteq> 0 then ret TPM_ERR_TRANSFER else
       andthen (tpm2_fifo_write_byte reg TPM_STAT_GO) (\<lambda>err.
       if err < 0 then ret err else ret TPM_SUCCESS))) (\<lambda>rc t. onward u t) u"
    if "ready D T u" for reg bits tmo st u
  proof (rule wp_seq [OF wait_live [OF that]], goal_cases)
    case (1 a v)
    then have v: "onward u v" "ready D T v" using ready_onward that by auto
    show ?case
      by (auto simp: wp_simps v split: prod.splits
          intro!: wp_mono [OF write_live [OF v(2)]] onward_trans [OF v(1)])
  qed
  have "wp False False (tpm2_fifo_send bo (Some chip) buf) (\<lambda>rc t. True \<and> onward s t) s"
    unfolding tpm2_fifo_send_def deref_simps andthen_ret Let_def size if_False assms(2)
  proof (rule wp_seq [OF read_live [OF assms(1)]], goal_cases)
    case (1 a t)
    then have t: "onward s t" "ready D T t" using ready_onward assms(1) by auto
    show ?case
      unfolding case_prod_unfold
    proof (rule wp_ifI, use t in \<open>simp add: wp_simps\<close>,
        rule wp_mono [OF live_seq [OF t(2) prep [OF t(2)], where Q = "\<lambda>_. True"]], goal_cases)
      case (1 rc u)
      then have u: "ready D T u" by simp
      show ?case
      proof (rule wp_ifI, simp add: wp_simps onward_refl,
          rule live_seq [OF u write_fifo_bytes_live [OF u]], intro wp_ifI, goal_cases)
        case (3 rc' v)
        then have v: "ready D T v" by simp
        show ?case
          by (rule live_seq [OF v send_loop_live [OF v assms(2,3)]], rule wp_ifI)
            (simp_all only: wp_ret onward_refl simp_thms finish [unfolded case_prod_unfold])
      qed (simp_all only: wp_ret onward_refl simp_thms)
    next
      case (2 rc u)
      then show ?case using onward_trans [OF t(1)] by blast
    qed
  qed
  then show ?thesis by simp
qed

text \<open>
  Receiving: the loops end whatever the TPM announces; they stay inside the target when it
  has room for \<^verbatim>\<open>read_size\<close> bytes. The flag \<open>f\<close> says whether a fault is tolerated.
\<close>

lemma recv_burst_live:
  "ready D T s \<Longrightarrow> 0 \<le> li \<Longrightarrow> (\<not> f \<Longrightarrow> read_size \<le> int (target_size dst buf)) \<Longrightarrow>
    wp False f (recv_burst bo n base dst read_size buf li sz)
      (\<lambda>r t. (burst_read dst buf li sz r \<and>
         (fst r = 0 \<and> 0 < n \<and> li < read_size \<longrightarrow> li < fst (snd (snd r)))) \<and> onward s t) s"
proof (induction n arbitrary: s buf li sz)
  case 0
  then show ?case by (simp add: wp_simps onward_refl burst_read_def)
next
  case (Suc n)
  show ?case
    unfolding recv_burst.simps
  proof (intro wp_ifI, goal_cases)
    case 1
    then show ?case using Suc.prems(2,3) by (cases f) (auto simp: wp_simps in_target_iff)
  next
    case 2
    show ?case
    proof (rule live_seq [OF Suc.prems(1)], rule wp_weaken_modes [OF wp_mono [OF read_live [OF Suc.prems(1)],
            of "\<lambda>a t. io_code (fst a) \<and> onward s t"]], goal_cases)
      case (4 a t)
      obtain rc b where a: "a = (rc, b)" by (cases a)
      show ?case
        unfolding a prod.case Let_def
      proof (rule wp_ifI, goal_cases)
        case 1
        then show ?case using 4 a by (simp add: wp_simps onward_refl burst_read_def target_size_set_byte)
      next
        case 2
        show ?case
          by (rule wp_mono [OF Suc.IH [OF 4(2)]])
            (use Suc.prems in \<open>auto simp: target_size_set_byte burst_read_def\<close>)
      qed
    qed auto
  next
    case 3
    then show ?case by (simp add: wp_simps onward_refl burst_read_def)
  qed
qed

lemma recv_loop_live:
  assumes "ready D T s" and "timeouts chip = Some tm" and "0 \<le> li" and "li \<le> sz"
    and fits: "\<not> f \<Longrightarrow> read_size \<le> int (target_size dst buf)"
  shows "wp False f (loop (recv_body bo (Some chip) base dst read_size) (buf, li, sz))
    (\<lambda>r t. (io_code (fst r) \<and> target_size dst (fst (snd r)) = target_size dst buf) \<and> onward s t) s"
proof (rule wp_loop_total [where I = "\<lambda>x t. case x of (b, l, z) \<Rightarrow> 0 \<le> l \<and> l \<le> z \<and>
      target_size dst b = target_size dst buf \<and> onward s t"
      and measr = "\<lambda>x _. nat (read_size - snd (snd x))"], goal_cases)
  case (1 x t)
  then obtain b l z where x: "x = (b, l, z)" and I: "0 \<le> l" "l \<le> z"
    "target_size dst b = target_size dst buf" "onward s t" by (cases x) auto
  have t: "ready D T t" using ready_onward I(4) assms(1) by blast
  show ?case
    unfolding recv_body_def x prod.case
  proof (rule wp_ifI, rule wp_seq [OF wp_weaken_modes [OF burstcount_live [OF t assms(2)]]], goal_cases)
    case (3 a u)
    obtain rc n where a: "a = (rc, n)" by (cases a)
    with 3 have u: "onward s u" "ready D T u" using I(4) ready_onward [OF _ t] onward_trans by auto
    show ?case
      unfolding a prod.case
    proof (rule wp_ifI, use 3 a u I in \<open>simp add: wp_simps\<close>,
        rule wp_seq [OF recv_burst_live [OF u(2) I(1)]], goal_cases)
      case 1
      then show ?case using fits I(3) by simp
    next
      case (2 r v)
      have "0 < unat n" using 3 a 2 by (simp add: unat_gt_0 io_code_def)
      with 2 3 I u show ?case
        by (auto simp: wp_simps burst_read_def split: prod.splits dest: io_code_nonpos intro: onward_trans)
    qed
  next
    case 4
    then show ?case using I by (simp add: wp_simps)
  qed auto
qed (use assms(3,4) onward_refl in simp)

lemma read_data_live:
  assumes "ready D T s" and "timeouts chip = Some tm" and "0 \<le> sz"
    and "n \<noteq> TPM_READ_HEADER \<Longrightarrow> int TPM_HEADER_SIZE \<le> sz"
    and "\<not> f \<Longrightarrow> n = TPM_READ_HEADER \<or> n \<le> int (length (data buf))"
  shows "wp False f (tpm2_fifo_read_data bo (Some chip) buf base st sz n)
    (\<lambda>r t. io_code (fst r) \<and> onward s t) s"
proof -
  define dst where "dst = (if n = TPM_READ_HEADER then Read_Header else Read_Data)"
  define size where "size = (if n = TPM_READ_HEADER then int TPM_HEADER_SIZE else n)"
  define li where "li = (if n = TPM_READ_HEADER then sz else sz - int TPM_HEADER_SIZE)"
  have loc: "(if n = TPM_READ_HEADER then (Read_Header, int TPM_HEADER_SIZE, sz)
      else (Read_Data, n, sz - int TPM_HEADER_SIZE)) = (dst, size, li)"
    by (simp add: dst_def size_def li_def)
  have li: "0 \<le> li" "li \<le> sz" using assms(3,4) by (auto simp: li_def)
  have fits: "size \<le> int (target_size dst buf)" if "\<not> f"
    using assms(5) [OF that] by (auto simp: size_def dst_def target_size_def)
  show ?thesis
    unfolding tpm2_fifo_read_data_def loc Let_def prod.case deref_simps andthen_ret assms(2)
  proof (rule live_seq [OF assms(1)], rule wp_weaken_modes [OF wp_mono [OF wait_live [OF assms(1)],
            of "\<lambda>a t. io_code (fst a) \<and> onward s t"]], goal_cases)
    case (4 a t)
    then show ?case
      by (auto simp: wp_simps onward_refl split: prod.splits
          intro!: wp_mono [OF recv_loop_live [OF _ assms(2) li fits]])
  qed auto
qed

lemma receive_live:
  assumes "ready D T s" and "timeouts chip = Some tm"
    and fits: "\<And>b sz t. \<not> f \<Longrightarrow> tpm2_fifo_read_data bo (Some chip) buf
      (LOCALITY_START_ADDRESS (locality chip)) 0 0 TPM_READ_HEADER s = Some (Inr ((0, b, sz), t)) \<Longrightarrow>
      \<not> too_long bo b"
  shows "wp False f (tpm2_fifo_receive bo (Some chip) buf) (\<lambda>_ t. onward s t) s"
proof -
  have hdr: "wp False f (tpm2_fifo_read_data bo (Some chip) buf
      (LOCALITY_START_ADDRESS (locality chip)) 0 0 TPM_READ_HEADER) (\<lambda>a t. io_code (fst a) \<and> onward s t) s"
    by (rule read_data_live [OF assms(1,2)]) simp_all
  show ?thesis
    unfolding tpm2_fifo_receive_def deref_simps andthen_ret Let_def
  proof (rule wp_seq [OF wp_ran [OF wp_traced [OF traced_read_header [OF refl] hdr]]], goal_cases)
    case (1 a t)
    obtain rc b sz where a: "a = (rc, b, sz)" by (cases a) auto
    from 1 a have t: "onward s t" "ready D T t" and rc: "io_code rc"
      using ready_onward assms(1) by auto
    show ?case
      unfolding a prod.case
    proof (intro wp_ifI, goal_cases)
      case 4
      then have "rc = 0" using rc io_code_nonpos by auto
      with 1 a have sz: "sz = 10" by (auto simp: Let_def)
      define n where "n = unat (be32toh bo (cmd_size (header b)))"
      have n: "n \<le> 256" "sint (be32toh bo (cmd_size (header b))) = int n"
        using 4(2) size_check [of "be32toh bo (cmd_size (header b))"] by (auto simp: n_def simp flip: not_less)
      have room: "int n \<le> int (length (data b))" if "\<not> f"
      proof -
        have "\<not> too_long bo b" using 1 a \<open>rc = 0\<close> by (intro fits [OF that, of _ sz t]) simp
        then show ?thesis using n(1) unfolding too_long_def Let_def n_def [symmetric] by simp
      qed
      have "wp False f (tpm2_fifo_read_data bo (Some chip) b (LOCALITY_START_ADDRESS (locality chip)) 0 sz
          (sint (be32toh bo (cmd_size (header b))))) (\<lambda>r u. io_code (fst r) \<and> onward t u) t"
        unfolding n(2) by (rule read_data_live [OF t(2) assms(2)]) (use sz room in auto)
      then show ?case
        by (rule wp_seq) (auto simp: wp_simps split: prod.splits intro: onward_trans [OF t(1)])
    qed (use t in \<open>simp_all add: wp_simps\<close>)
  qed
qed

text \<open>Opening and closing a session with the TPM.\<close>

lemma chunk_live:
  assumes "ready D T s"
  shows "wp False False (tpm2_fifo_read_chunk reg len old) (\<lambda>_ t. True \<and> onward s t) s"
proof -
  have "tpm_spidev s = Some \<lparr>ops = D\<rparr>" using assms by (simp add: ready_def)
  note io = wp_conj [OF fifo_io_report [OF this] fifo_io_onward]
  show ?thesis
    by (auto simp: tpm2_fifo_read_chunk_def wp_simps onward_refl
        intro!: wp_mono [OF io [simplified]])
qed

lemma get_info_live:
  assumes "ready D T s"
  shows "wp False False (tpm2_get_info cd loc) (\<lambda>_ t. True \<and> onward s t) s"
  unfolding tpm2_get_info_def Let_def
proof (rule live_seq [OF assms chunk_live [OF assms]], goal_cases)
  case (1 a t)
  then show ?case
    by (auto simp: wp_simps onward_refl split: prod.splits intro!: wp_mono [OF read_live])
qed

lemma request_access_live:
  assumes "ready D T s" and "timeouts chip = Some tm"
  shows "wp False False (tpm2_fifo_request_access (Some chip) loc)
    (\<lambda>r t. (io_code (fst r) \<and> (fst r = 0 \<longrightarrow> snd r = Some (chip\<lparr>locality := loc\<rparr>)) \<and>
       (fst r \<noteq> 0 \<longrightarrow> snd r = Some chip)) \<and> onward s t) s"
  unfolding tpm2_fifo_request_access_def Let_def
proof (rule live_seq [OF assms(1) write_live [OF assms(1)]], goal_cases)
  case (1 a t)
  then show ?case
    by (auto simp: wp_simps onward_refl assms(2) split: prod.splits intro!: wp_mono [OF wait_live])
qed

lemma release_live:
  assumes "ready D T s"
  shows "wp False False (tpm2_fifo_release_locality cd loc)
    (\<lambda>rc t. (io_code rc \<or> rc = TPM_ERR_RESPONSE) \<and> onward s t) s"
  unfolding tpm2_fifo_release_locality_def Let_def
proof (rule live_seq [OF assms, where R = "\<lambda>a. io_code (fst a)"],
    rule wp_mono [OF read_live [OF assms]], goal_cases)
  case (2 a t)
  then show ?case
    by (auto simp: wp_simps onward_refl split: prod.splits intro!: wp_mono [OF write_live])
qed auto

end

section \<open>The POSIX timer over a clock that moves\<close>

text \<open>
  A platform that carries a monotonic clock, in microseconds, beside the state of any SPI
  platform \<open>D\<close>: every reading of the clock moves it on by one until it reaches the end of
  the 64-bit range (some 584,000 years); the SPI operations need not move it at all.
\<close>

definition with_clock :: "'q tpm_spi_ops \<Rightarrow> ('q \<times> nat) tpm_spi_ops" where
  "with_clock D =
     \<lparr>get_access = (\<lambda>(q, t). let (rc, q') = get_access D q in (rc, q', t)),
      release_access = (\<lambda>(q, t). (release_access D q, t)),
      start = (\<lambda>(q, t). (start D q, t)),
      stop = (\<lambda>(q, t). (stop D q, t)),
      xfer = (\<lambda>n out inp (q, t). let (rc, din, q') = xfer D n out inp q in (rc, din, q', t))\<rparr>"

definition end_of_time :: nat where
  "end_of_time = 2 ^ 64 - 1"

definition read_clock :: "'q \<times> nat \<Rightarrow> timespec \<times> 'q \<times> nat" where
  "read_clock = (\<lambda>(q, t). let t' = min t end_of_time in
     (\<lparr>tv_sec = int (t' div 10 ^ 6), tv_nsec = int (t' mod 10 ^ 6) * 1000\<rparr>, q, Suc t'))"

definition time_left :: "u64 \<Rightarrow> 'q \<times> nat \<Rightarrow> nat" where
  "time_left d = (\<lambda>(q, t). unat d - t)"

lemma get_time_us_read_clock:
  "get_time_us read_clock (q, t) = (of_nat (min t end_of_time), q, Suc (min t end_of_time))"
proof -
  define n where "n = min t end_of_time"
  have "int (n mod 10 ^ 6) * 1000 sdiv 1000 = int (n mod 10 ^ 6)"
    by (cases "n mod 10 ^ 6 = 0") (simp_all add: signed_divide_int_def sgn_if)
  moreover have "of_nat (n div 10 ^ 6) * 1000000 + of_nat (n mod 10 ^ 6) = (of_nat n :: u64)"
  proof -
    have "n = n div 10 ^ 6 * 1000000 + n mod 10 ^ 6" by simp
    then show ?thesis by (metis of_nat_add of_nat_mult of_nat_numeral)
  qed
  ultimately show ?thesis
    by (simp add: get_time_us_def read_clock_def n_def Let_def)
qed

lemma elapsed_read_clock:
  "timeout_elapsed_impl read_clock d (q, t) =
     (unat d \<le> min t end_of_time, q, Suc (min t end_of_time))"
proof -
  have "unat (of_nat (min t end_of_time) :: u64) = min t end_of_time"
    by (simp add: end_of_time_def unsigned_of_nat take_bit_nat_eq_self)
  then show ?thesis
    by (simp add: timeout_elapsed_impl_def get_time_us_read_clock word_le_nat_alt)
qed

lemma deadline_in_time: "unat (d :: u64) \<le> end_of_time"
  using unsigned_less [of d, where 'a = nat] by (simp add: end_of_time_def)

interpretation ticking: fair_timer "with_clock D" "tpm_lib_timeout_ops read_clock" time_left for D
proof
  fix d d' :: u64 and us :: u32 and p :: "'a \<times> nat" and n out inp
  obtain q t where p: "p = (q, t)" by (cases p)
  note defs = p time_left_def tpm_lib_timeout_ops_def elapsed_read_clock timeout_init_us_impl_def
    get_time_us_read_clock with_clock_def Let_def
  show "\<not> fst (timeout_elapsed (tpm_lib_timeout_ops read_clock) d p) \<Longrightarrow>
      time_left d (snd (timeout_elapsed (tpm_lib_timeout_ops read_clock) d p)) < time_left d p"
    using deadline_in_time [of d] by (simp add: defs)
  show "time_left d (snd (timeout_elapsed (tpm_lib_timeout_ops read_clock) d' p)) \<le> time_left d p"
    using deadline_in_time [of d] by (simp add: defs)
  show "time_left d (snd (timeout_init_us (tpm_lib_timeout_ops read_clock) us p)) \<le> time_left d p"
    using deadline_in_time [of d] by (simp add: defs)
qed (auto simp: time_left_def with_clock_def Let_def split: prod.splits)

end
