(* ===== verification/TPM_Interface.thy ===== *)
theory TPM_Interface
  imports TPM_Live
begin

unbundle bit_operations_syntax

text \<open>
  The transport-independent part of \<^verbatim>\<open>src/tpm2_cmds.c\<close> (lines 64 to 119) and the table of
  \<^verbatim>\<open>src/tpm2_fifo.c\<close> it calls through: opening and closing the interface, exchanging a
  command for a response, the last transport error. The calls go through the global
  \<^verbatim>\<open>interface\<close>; it is null until \<^verbatim>\<open>tpm_interface_init\<close> has set it, and calling through it
  then is a fault.
\<close>

section \<open>The calls through the interface table\<close>

definition interface_get_info :: "tpm_chip_data option \<Rightarrow> byte \<Rightarrow> ('p tpm_lib, int) op" where
  "interface_get_info chip_data loc =
     andthen get_state (\<lambda>s. andthen (deref (interface s)) (\<lambda>i.
       case i of Fifo_Ops \<Rightarrow> tpm2_get_info chip_data loc))"

definition interface_send :: "byte_order \<Rightarrow> tpm_chip_data option \<Rightarrow> tpm_cmd \<Rightarrow> ('p tpm_lib, int) op" where
  "interface_send bo chip_data buf =
     andthen get_state (\<lambda>s. andthen (deref (interface s)) (\<lambda>i.
       case i of Fifo_Ops \<Rightarrow> tpm2_fifo_send bo chip_data buf))"

definition interface_receive ::
  "byte_order \<Rightarrow> tpm_chip_data option \<Rightarrow> tpm_cmd \<Rightarrow> ('p tpm_lib, int \<times> tpm_cmd) op" where
  "interface_receive bo chip_data buf =
     andthen get_state (\<lambda>s. andthen (deref (interface s)) (\<lambda>i.
       case i of Fifo_Ops \<Rightarrow> tpm2_fifo_receive bo chip_data buf))"

definition interface_request_access ::
  "tpm_chip_data option \<Rightarrow> byte \<Rightarrow> ('p tpm_lib, int \<times> tpm_chip_data option) op" where
  "interface_request_access chip_data loc =
     andthen get_state (\<lambda>s. andthen (deref (interface s)) (\<lambda>i.
       case i of Fifo_Ops \<Rightarrow> tpm2_fifo_request_access chip_data loc))"

definition interface_release_locality :: "tpm_chip_data option \<Rightarrow> byte \<Rightarrow> ('p tpm_lib, int) op" where
  "interface_release_locality chip_data loc =
     andthen get_state (\<lambda>s. andthen (deref (interface s)) (\<lambda>i.
       case i of Fifo_Ops \<Rightarrow> tpm2_fifo_release_locality chip_data loc))"

definition tpm_interface_getops :: "tpm_chip_data option \<Rightarrow> byte \<Rightarrow> interface_ops option" where
  "tpm_interface_getops chip_data loc = Some Fifo_Ops"

section \<open>The functions of \<open>tpm2_cmds.c\<close>\<close>

text \<open>The second component of the result is the buffer \<^verbatim>\<open>*receive\<close>.\<close>

definition tpm_xfer ::
  "byte_order \<Rightarrow> tpm_chip_data option \<Rightarrow> tpm_cmd \<Rightarrow> tpm_cmd \<Rightarrow> ('p tpm_lib, int \<times> tpm_cmd) op" where
  "tpm_xfer bo chip_data send receive =
     andthen (interface_send bo chip_data send) (\<lambda>rc.
     if rc < 0 then ret (rc, receive) else
     andthen (interface_receive bo chip_data receive) (\<lambda>(rc, receive).
     if rc < 0 then ret (rc, receive) else
     ret (TPM_SUCCESS, receive)))"

definition tpm_get_last_transport_error :: "('p tpm_lib, int) op" where
  "tpm_get_last_transport_error = andthen get_state (\<lambda>s. ret (tpm_last_transport_error s))"

text \<open>
  \<open>lib_timer\<close> is the timer compiled in: \<open>Some\<close> when \<^verbatim>\<open>HAS_LIB_TIMER\<close> is defined. The result
  is the return code and the chip data, which \<^verbatim>\<open>request_access\<close> changes.
\<close>

definition tpm_interface_init ::
  "'p timeout_ops option \<Rightarrow> 'p tpm_spi_plat option \<Rightarrow> 'p timeout_ops option \<Rightarrow> tpm_chip_data option \<Rightarrow>
     byte \<Rightarrow> ('p tpm_lib, int \<times> tpm_chip_data option) op" where
  "tpm_interface_init lib_timer transport timeout_ops chip_data loc =
     andthen (modify (\<lambda>s. s\<lparr>tpm_spidev := transport\<rparr>)) (\<lambda>_.
     case (case timeout_ops of None \<Rightarrow> lib_timer | Some t \<Rightarrow> Some t) of
       None \<Rightarrow> ret (TPM_INVALID_PARAM, chip_data)
     | Some t \<Rightarrow>
         andthen (modify (\<lambda>s. s\<lparr>tpm_timeout_ops := Some t\<rparr>)) (\<lambda>_.
         andthen (modify (\<lambda>s. s\<lparr>interface := tpm_interface_getops chip_data loc\<rparr>)) (\<lambda>_.
         andthen (interface_request_access chip_data loc) (\<lambda>(err, chip_data).
         if err \<noteq> 0 then ret (err, chip_data) else
         andthen (interface_get_info chip_data loc) (\<lambda>err. ret (err, chip_data))))))"

definition tpm_interface_close :: "tpm_chip_data option \<Rightarrow> byte \<Rightarrow> ('p tpm_lib, int) op" where
  "tpm_interface_close chip_data loc = interface_release_locality chip_data loc"

lemmas interface_call_defs = interface_get_info_def interface_send_def interface_receive_def
  interface_request_access_def interface_release_locality_def

section \<open>What an exchange does\<close>

lemma traced_get_state: "(\<And>s. traced (k s) Q) \<Longrightarrow> traced (andthen get_state k) Q"
  by (auto simp: traced_def andthen_def get_state_def)

lemma traced_interface:
  assumes "traced (m Fifo_Ops) Q"
  shows "traced (andthen get_state (\<lambda>s. andthen (deref (interface s)) (\<lambda>i. m i))) Q"
proof (intro traced_get_state traced_deref)
  show "traced (m i) Q" for i using assms by (cases i) simp
qed

text \<open>
  A completed exchange: first the command goes out, then, without any further write, the
  response comes in. An exchange whose sending failed leaves the response buffer alone.
\<close>

definition exchanged ::
  "byte_order \<Rightarrow> u16 \<Rightarrow> tpm_cmd \<Rightarrow> tpm_cmd \<Rightarrow> int \<times> tpm_cmd \<Rightarrow> reg_op list \<Rightarrow> bool" where
  "exchanged bo base cmd buf = (\<lambda>(rc, buf') tr.
     if rc = TPM_SUCCESS then
       \<exists>out inp rc' hs ds. tr = out @ inp \<and> sent bo base cmd TPM_SUCCESS out \<and>
         reg_writes inp = [] \<and> reg_reads (fifo_addr base) inp = hs @ ds \<and>
         got_response bo buf rc' buf' hs ds
     else (io_code rc \<or> rc = TPM_INVALID_PARAM) \<and>
       (\<exists>pre \<in> ready_writes base. prefix (reg_writes tr) (pre @ send_script bo base cmd)))"

lemma sent_prefix:
  "sent bo base cmd rc tr \<Longrightarrow> \<exists>pre \<in> ready_writes base. prefix (reg_writes tr) (pre @ send_script bo base cmd)"
  by (auto simp: sent_def writes_upto_def)

lemma traced_xfer:
  assumes base: "base = LOCALITY_START_ADDRESS (locality chip)"
  shows "traced (tpm_xfer bo (Some chip) cmd buf) (exchanged bo base cmd buf)"
  unfolding tpm_xfer_def interface_send_def interface_receive_def
proof (rule traced_andthen [OF traced_interface], unfold interface_ops.case,
    rule traced_send [OF base, of bo cmd], rule traced_if, goal_cases)
  case (1 rc tr)
  then show ?case by (auto simp: exchanged_def sent_def writes_upto_def)
next
  case (2 rc tr)
  then have out: "sent bo base cmd TPM_SUCCESS tr" by (auto simp: sent_def dest: io_code_nonpos)
  show ?case
  proof (rule traced_andthen [OF traced_interface], unfold interface_ops.case,
      rule traced_receive [OF base, of bo buf], intro traced_prod traced_if traced_ret, goal_cases)
    case (1 a tr' rc' b)
    then show ?case using sent_prefix [OF out] by (auto simp: exchanged_def)
  next
    case (2 a tr' rc' b)
    then have "exchanged bo base cmd buf (TPM_SUCCESS, b) (tr @ tr')"
      using out unfolding exchanged_def prod.case by (simp del: TPM_SUCCESS_def) force
    then show ?case by simp
  qed
qed

section \<open>Opening and closing\<close>

definition access_addr :: "byte \<Rightarrow> u16" where
  "access_addr loc = reg_addr (LOCALITY_START_ADDRESS loc) TPM_FIFO_REG_ACCESS"

lemma access_addr_not_fifo:
  "access_addr loc \<noteq> fifo_addr (LOCALITY_START_ADDRESS loc)"
  by (simp add: access_addr_def fifo_addr_def reg_addr_eq)

text \<open>
  A request for a locality writes \<open>TPM_ACCESS_REQUEST_USE\<close> once and succeeds only after the
  TPM has answered \<open>TPM_ACCESS_ACTIVE_LOCALITY\<close>; the locality of the chip changes exactly then.
\<close>

definition locality_granted ::
  "tpm_chip_data \<Rightarrow> byte \<Rightarrow> int \<times> tpm_chip_data option \<Rightarrow> reg_op list \<Rightarrow> bool" where
  "locality_granted chip loc = (\<lambda>(rc, c) tr.
     io_code rc \<and>
     c = Some (if rc = TPM_SUCCESS then chip\<lparr>locality := loc\<rparr> else chip) \<and>
     (rc = TPM_SUCCESS \<longrightarrow>
        reg_writes tr = [(access_addr loc, TPM_ACCESS_REQUEST_USE)] \<and>
        reg_reads (access_addr loc) tr \<noteq> [] \<and>
        last (reg_reads (access_addr loc) tr) AND TPM_ACCESS_ACTIVE_LOCALITY = TPM_ACCESS_ACTIVE_LOCALITY))"

lemma traced_request_access:
  "traced (tpm2_fifo_request_access (Some chip) loc) (locality_granted chip loc)"
  unfolding tpm2_fifo_request_access_def Let_def access_addr_def [symmetric] deref_simps andthen_ret
proof (rule traced_andthen [OF traced_write], rule traced_if, goal_cases)
  case (1 rc tr)
  then show ?case by (auto simp: locality_granted_def)
next
  case (2 rc tr)
  then have tr: "tr = [Reg_Write (access_addr loc) TPM_ACCESS_REQUEST_USE 0]"
    using io_code_nonpos [of rc] by auto
  show ?case
    by (intro traced_deref traced_andthen [OF traced_wait_reg_bits [OF access_addr_not_fifo]]
        traced_prod traced_if traced_ret)
      (auto simp: locality_granted_def tr quiet_def wait_done_def)
qed

lemma traced_get_info:
  "traced (tpm2_get_info cd loc) (\<lambda>rc tr. (io_code rc \<or> rc = TPM_INVALID_PARAM) \<and> reg_writes tr = [])"
  unfolding tpm2_get_info_def Let_def
  by (intro traced_andthen [OF traced_chunk] traced_prod traced_if traced_ret
      traced_andthen [OF traced_read]) auto

text \<open>
  A release reads the access register and gives the locality up exactly if a request is
  pending or the register is valid; otherwise it reports \<open>TPM_ERR_RESPONSE\<close>.
\<close>

definition released :: "byte \<Rightarrow> int \<Rightarrow> reg_op list \<Rightarrow> bool" where
  "released loc rc tr \<longleftrightarrow> (\<exists>v e. io_code e \<and>
     (if e < 0 then tr = [Reg_Read (access_addr loc) v e] \<and> rc = e
      else if v AND (TPM_ACCESS_REQUEST_PENDING OR TPM_ACCESS_VALID) \<noteq> 0
      then tr = [Reg_Read (access_addr loc) v 0,
          Reg_Write (access_addr loc) TPM_ACCESS_RELINQUISH_LOCALITY rc] \<and> io_code rc
      else tr = [Reg_Read (access_addr loc) v 0] \<and> rc = TPM_ERR_RESPONSE))"

lemma traced_release: "traced (tpm2_fifo_release_locality cd loc) (released loc)"
  unfolding tpm2_fifo_release_locality_def Let_def access_addr_def [symmetric]
  by (intro traced_andthen [OF traced_read] traced_prod traced_if traced_ret
      traced_mono [OF traced_write]) (auto simp: released_def dest: io_code_nonpos)

definition chosen_timer :: "'p timeout_ops option \<Rightarrow> 'p timeout_ops option \<Rightarrow> 'p timeout_ops option" where
  "chosen_timer lib_timer t = (case t of None \<Rightarrow> lib_timer | Some t \<Rightarrow> Some t)"

text \<open>The state in which \<^verbatim>\<open>tpm_interface_init\<close> asks for the locality.\<close>

definition configured :: "'p tpm_spi_plat option \<Rightarrow> 'p timeout_ops option \<Rightarrow> 'p tpm_lib \<Rightarrow> 'p tpm_lib" where
  "configured transport timer s =
     s\<lparr>tpm_spidev := transport, tpm_timeout_ops := timer, interface := Some Fifo_Ops\<rparr>"

lemma init_eq:
  assumes "chosen_timer lib_timer tops = Some tm"
  shows "tpm_interface_init lib_timer transport tops cd loc s =
    andthen (tpm2_fifo_request_access cd loc) (\<lambda>(err, cd).
      if err \<noteq> 0 then ret (err, cd) else
      andthen (interface_get_info cd loc) (\<lambda>err. ret (err, cd))) (configured transport (Some tm) s)"
  using assms
  by (simp add: tpm_interface_init_def chosen_timer_def interface_request_access_def
      tpm_interface_getops_def configured_def andthen_def modify_def get_state_def ret_def)

lemma traced_init_rest:
  "traced (andthen (tpm2_fifo_request_access (Some chip) loc) (\<lambda>(err, cd).
      if err \<noteq> 0 then ret (err, cd) else
      andthen (interface_get_info cd loc) (\<lambda>err. ret (err, cd))))
    (\<lambda>(rc, c) tr. rc = TPM_SUCCESS \<longrightarrow> c = Some (chip\<lparr>locality := loc\<rparr>) \<and>
       (\<exists>tr1 tr2. tr = tr1 @ tr2 \<and> locality_granted chip loc (TPM_SUCCESS, c) tr1 \<and> reg_writes tr2 = []))"
  unfolding interface_get_info_def
proof (rule traced_andthen [OF traced_request_access], intro traced_prod traced_if traced_ret, goal_cases)
  case (2 a tr rc c)
  show ?case
  proof (rule traced_andthen [OF traced_interface], unfold interface_ops.case, rule traced_get_info,
      rule traced_ret, goal_cases)
    case (1 a tr')
    then show ?case using 2 by (auto simp: locality_granted_def)
  qed
qed simp

lemma init_success:
  assumes "tpm_interface_init lib_timer transport tops (Some chip) loc s = Some (Inr ((TPM_SUCCESS, c), t))"
  shows "c = Some (chip\<lparr>locality := loc\<rparr>)" and "interface t = Some Fifo_Ops"
    and "tpm_spidev t = transport" and "tpm_timeout_ops t = chosen_timer lib_timer tops"
    and "\<exists>tr1 tr2. reg_run (configured transport (chosen_timer lib_timer tops) s) (tr1 @ tr2) t \<and>
      locality_granted chip loc (TPM_SUCCESS, c) tr1 \<and> reg_writes tr2 = []"
proof -
  obtain tm where tm: "chosen_timer lib_timer tops = Some tm"
    using assms by (cases "chosen_timer lib_timer tops")
      (auto simp: chosen_timer_def tpm_interface_init_def andthen_def modify_def ret_def)
  from tracedD [OF traced_init_rest assms [unfolded init_eq [OF tm]]]
  obtain tr1 tr2 where run: "reg_run (configured transport (Some tm) s) (tr1 @ tr2) t"
    and c: "c = Some (chip\<lparr>locality := loc\<rparr>)"
    and g: "locality_granted chip loc (TPM_SUCCESS, c) tr1" "reg_writes tr2 = []" by auto
  show "c = Some (chip\<lparr>locality := loc\<rparr>)" by (fact c)
  have "same_globals (configured transport (Some tm) s) t" using run_globals [OF run] by simp
  then show "interface t = Some Fifo_Ops" "tpm_spidev t = transport"
    "tpm_timeout_ops t = chosen_timer lib_timer tops"
    by (simp_all add: same_globals_def configured_def tm)
  show "\<exists>tr1 tr2. reg_run (configured transport (chosen_timer lib_timer tops) s) (tr1 @ tr2) t \<and>
      locality_granted chip loc (TPM_SUCCESS, c) tr1 \<and> reg_writes tr2 = []"
    using run g unfolding tm by blast
qed

lemma init_no_timer:
  assumes "chosen_timer lib_timer tops = None"
  shows "tpm_interface_init lib_timer transport tops cd loc s =
    Some (Inr ((TPM_INVALID_PARAM, cd), s\<lparr>tpm_spidev := transport\<rparr>))"
  using assms by (simp add: tpm_interface_init_def chosen_timer_def andthen_def modify_def ret_def
      split: option.splits)

section \<open>Exchanges end\<close>

definition opened_lib :: "'p tpm_spi_ops \<Rightarrow> 'p timeout_ops \<Rightarrow> 'p tpm_lib \<Rightarrow> bool" where
  "opened_lib D T s \<longleftrightarrow> ready D T s \<and> interface s = Some Fifo_Ops"

text \<open>A TPM that never announces a response longer than the data array.\<close>

definition short_responses :: "byte_order \<Rightarrow> tpm_chip_data \<Rightarrow> 'p tpm_spi_ops \<Rightarrow> 'p timeout_ops \<Rightarrow> bool" where
  "short_responses bo chip D T \<longleftrightarrow>
     (\<forall>s buf b sz t. ready D T s \<longrightarrow> wf_cmd buf \<longrightarrow>
        tpm2_fifo_read_data bo (Some chip) buf (LOCALITY_START_ADDRESS (locality chip)) 0 0
          TPM_READ_HEADER s = Some (Inr ((0, b, sz), t)) \<longrightarrow> \<not> too_long bo b)"

text \<open>A command whose announced size is covered by the buffer.\<close>

definition sendable :: "byte_order \<Rightarrow> tpm_cmd \<Rightarrow> bool" where
  "sendable bo cmd \<longleftrightarrow> unat (be32toh bo (cmd_size (header cmd))) \<le> TPM_HEADER_SIZE + length (data cmd)"

context fair_timer
begin

lemma opened_onward: "onward s t \<Longrightarrow> opened_lib D T s \<Longrightarrow> opened_lib D T t"
  using ready_onward [of s t] by (simp add: opened_lib_def onward_def same_globals_def)

lemma xfer_live:
  assumes s: "opened_lib D T s" and tm: "timeouts chip = Some tm"
    and "sendable bo cmd" and "wf_cmd buf"
    and fits: "\<not> f \<Longrightarrow> short_responses bo chip D T"
  shows "wp False f (tpm_xfer bo (Some chip) cmd buf) (\<lambda>_ t. onward s t) s"
proof -
  have rs: "ready D T s" "interface s = Some Fifo_Ops" using s by (simp_all add: opened_lib_def)
  have send: "wp False f (interface_send bo (Some chip) cmd) (\<lambda>_ t. onward s t) s"
    using wp_weaken_modes [OF send_live [OF rs(1) tm, of bo cmd], of False f] assms(3) rs(2)
    by (simp add: interface_send_def wp_simps sendable_def)
  have receive: "wp False f (interface_receive bo (Some chip) buf) (\<lambda>_ u. onward t u) t"
    if t: "opened_lib D T t" for t
  proof -
    have "wp False f (tpm2_fifo_receive bo (Some chip) buf) (\<lambda>_ u. onward t u) t"
      by (rule receive_live [OF _ tm])
        (use t fits assms(4) in \<open>auto simp: opened_lib_def short_responses_def\<close>)
    then show ?thesis using t by (simp add: interface_receive_def wp_simps opened_lib_def)
  qed
  show ?thesis
    unfolding tpm_xfer_def
  proof (rule wp_seq [OF send], rule wp_ifI, goal_cases)
    case (2 rc t)
    show ?case
      by (rule wp_seq [OF receive [OF opened_onward [OF 2(1) s]]])
        (auto simp: wp_simps split: prod.splits intro: onward_trans [OF 2(1)])
  qed (simp add: wp_simps)
qed

lemma init_live:
  assumes "chosen_timer lib_timer tops = Some T" and "timeouts chip = Some tm"
  shows "\<exists>rc c t. tpm_interface_init lib_timer (Some \<lparr>ops = D\<rparr>) tops (Some chip) loc s = Some (Inr ((rc, c), t))
    \<and> opened_lib D T t"
proof -
  define s' where "s' = configured (Some \<lparr>ops = D\<rparr>) (Some T) s"
  have s': "opened_lib D T s'" by (simp add: s'_def opened_lib_def ready_def configured_def)
  then have "ready D T s'" by (simp add: opened_lib_def)
  then have "wp False False (andthen (tpm2_fifo_request_access (Some chip) loc) (\<lambda>(err, cd).
      if err \<noteq> 0 then ret (err, cd) else
      andthen (interface_get_info cd loc) (\<lambda>err. ret (err, cd)))) (\<lambda>_ t. opened_lib D T t) s'"
  proof (rule wp_seq [OF request_access_live [OF _ assms(2)]], goal_cases)
    case (1 a t)
    then have t: "opened_lib D T t" using opened_onward s' by blast
    then have "ready D T t" by (simp add: opened_lib_def)
    then have "wp False False (tpm2_get_info cd loc) (\<lambda>_ u. opened_lib D T u) t" for cd
      by (rule wp_mono [OF get_info_live]) (use t opened_onward in blast)
    with t show ?case
      by (auto simp: wp_simps interface_get_info_def opened_lib_def split: prod.splits)
  qed
  then show ?thesis
    unfolding init_eq [OF assms(1)] s'_def [symmetric] wp_total_iff by auto
qed

lemma close_live:
  assumes "opened_lib D T s"
  shows "wp False False (tpm_interface_close cd loc)
    (\<lambda>rc t. (io_code rc \<or> rc = TPM_ERR_RESPONSE) \<and> onward s t) s"
  using assms release_live [of s cd loc]
  by (simp add: tpm_interface_close_def interface_release_locality_def wp_simps opened_lib_def)

end

end
