(* ===== verification/TPM_Sim.thy ===== *)
theory TPM_Sim
  imports TPM_Interface
begin

unbundle bit_operations_syntax

text \<open>
  A platform to run the model on: every register read returns the next byte of a script,
  every write is accepted, the clock is the one of \<open>TPM_Live\<close>. It shows that the hypotheses
  of the theorems can hold, and it replays responses that the receive loop does not cope with.
\<close>

section \<open>The scripted platform\<close>

definition script_ops :: "byte list tpm_spi_ops" where
  "script_ops =
     \<lparr>get_access = (\<lambda>p. (0, p)), release_access = (\<lambda>p. p), start = (\<lambda>p. p), stop = (\<lambda>p. p),
      xfer = (\<lambda>n out inp p. case out of Some _ \<Rightarrow> (0, \<lambda>_. 1, p)
                | None \<Rightarrow> (0, \<lambda>_. (case p of [] \<Rightarrow> 0 | b # _ \<Rightarrow> b), tl p))\<rparr>"

definition sim :: "byte list \<Rightarrow> nat \<Rightarrow> (byte list \<times> nat) tpm_lib" where
  "sim bs t =
     \<lparr>tpm_spidev = Some \<lparr>ops = with_clock script_ops\<rparr>,
      tpm_timeout_ops = Some (tpm_lib_timeout_ops read_clock),
      tpm_last_transport_error = 0, interface = Some Fifo_Ops, plat = (bs, t)\<rparr>"

definition sim_chip :: tpm_chip_data where
  "sim_chip = tpm_chip_data_init\<lparr>locality := 0\<rparr>"

lemma sim_chip_simps [simp]: "locality sim_chip = 0" "timeouts sim_chip = Some tpm_timeouts"
  by (simp_all add: sim_chip_def tpm_chip_data_init_def)

lemma opened_sim: "opened_lib (with_clock script_ops) (tpm_lib_timeout_ops read_clock) (sim bs t)"
  by (simp add: opened_lib_def ready_def sim_def)

lemma ready_sim: "ready (with_clock script_ops) (tpm_lib_timeout_ops read_clock) (sim bs t)"
  by (simp add: ready_def sim_def)

lemmas op_defs = andthen_def get_state_def modify_def ret_def deref_def

lemma sim_read [simp]: "tpm2_fifo_read_byte reg old (sim (b # bs) t) = Some (Inr ((0, b), sim bs t))"
  by (simp add: tpm2_fifo_read_byte_def tpm2_fifo_io_def tpm2_spi_init_def tpm2_spi_start_transaction_def
      tpm2_spi_transfer_def tpm2_spi_end_transaction_def spidev_ops_def op_defs sim_def with_clock_def script_ops_def)

lemma sim_write [simp]: "tpm2_fifo_write_byte reg v (sim bs t) = Some (Inr (0, sim bs t))"
  by (simp add: tpm2_fifo_write_byte_def tpm2_fifo_io_def tpm2_spi_init_def tpm2_spi_start_transaction_def
      tpm2_spi_transfer_def tpm2_spi_end_transaction_def spidev_ops_def op_defs sim_def with_clock_def script_ops_def)

lemma sim_chunk [simp]:
  "tpm2_fifo_read_chunk reg 4 old (sim (b # bs) t) = Some (Inr ((0, replicate 4 b), sim bs t))"
  by (simp add: tpm2_fifo_read_chunk_def tpm2_fifo_io_def tpm2_spi_init_def tpm2_spi_start_transaction_def
      tpm2_spi_transfer_def tpm2_spi_end_transaction_def spidev_ops_def op_defs sim_def with_clock_def
      script_ops_def map_replicate_const)

lemma sim_timer_init [simp]:
  "call_timeout_init_us us (sim bs t) =
     Some (Inr (of_nat (min t end_of_time) + ucast us, sim bs (Suc (min t end_of_time))))"
  by (simp add: call_timeout_init_us_def op_defs sim_def tpm_lib_timeout_ops_def timeout_init_us_impl_def
      get_time_us_read_clock)

section \<open>Waiting, bursts, receiving\<close>

lemma sim_wait:
  "v AND bits = bits \<Longrightarrow>
     tpm2_wait_reg_bits reg bits tmo st (sim (v # bs) t) = Some (Inr ((0, v), sim bs (Suc (min t end_of_time))))"
  unfolding tpm2_wait_reg_bits_def
  by (simp add: andthen_def loop_unfold [of "wait_body reg bits _"] wait_body_def ret_def)

lemma sim_burst:
  assumes "push_bit 8 (ucast hi) + ucast lo = n" and "n \<noteq> 0" and "timeouts chip = Some tm"
  shows "tpm2_fifo_get_burstcount (Some chip) (Some b) (sim (lo # hi # bs) t) =
    Some (Inr ((0, n), sim bs (Suc (min t end_of_time))))"
  unfolding tpm2_fifo_get_burstcount_def using assms
  by (simp add: andthen_def loop_unfold [of "burst_body _ _"] burst_body_def ret_def Let_def)

lemma store_Cons:
  assumes "i < target_size dst buf"
  shows "store bo dst (set_byte bo dst buf i x) (Suc i) xs = store bo dst buf i (x # xs)"
  using assms by (cases dst) (simp_all add: store_def set_byte_def target_size_def overlay_Cons)

lemma sim_recv_burst:
  assumes "length xs \<le> n" and "int i + int (length xs) \<le> read_size" and "i + length xs \<le> target_size dst buf"
  shows "recv_burst bo n base dst read_size buf (int i) sz (sim (xs @ rest) t) =
    recv_burst bo (n - length xs) base dst read_size (store bo dst buf i xs)
      (int (i + length xs)) (sz + int (length xs)) (sim rest t)"
  using assms
proof (induction xs arbitrary: n i buf sz)
  case (Cons x xs)
  then obtain m where n: "n = Suc m" by (cases n) auto
  have in_t: "in_target dst buf (int i)" using Cons.prems by (simp add: in_target_iff)
  have "target_size dst (set_byte bo dst buf i x) = target_size dst buf" by (rule target_size_set_byte)
  with Cons.IH [of m "Suc i" "set_byte bo dst buf i x" "sz + 1"] Cons.prems n in_t show ?case
    by (simp add: andthen_def ret_def store_Cons add_ac)
qed simp

text \<open>Reading a header: ten bytes in one burst.\<close>

lemma sim_read_header:
  assumes "length hs = 10" and "timeouts chip = Some tm" and "t < 10 ^ 9"
  shows "tpm2_fifo_read_data bo (Some chip) buf base 0 0 TPM_READ_HEADER (sim (0x10 # 10 # 0 # hs @ rest) t) =
    Some (Inr ((0, buf\<lparr>header := hdr_of_bytes bo hs\<rparr>, 10), sim rest (t + 2)))"
proof -
  have t: "min t end_of_time = t" "min (Suc t) end_of_time = Suc t" using assms(3) by (simp_all add: end_of_time_def)
  have w: "(0x10 :: byte) AND TPM_STAT_AVAIL = TPM_STAT_AVAIL" by simp
  have b: "push_bit 8 (ucast (0 :: byte)) + ucast (10 :: byte) = (10 :: u16)" by simp
  have fits: "10 \<le> target_size Read_Header buf" by (simp add: target_size_def)
  note burst = sim_recv_burst [of hs 10 0 10 Read_Header buf bo base 0 rest "Suc (Suc t)", simplified assms(1), simplified, OF fits]
  have st: "store bo Read_Header buf 0 hs = buf\<lparr>header := hdr_of_bytes bo hs\<rparr>"
    using assms(1) by (simp add: store_def overlay_full)
  have loop1: "loop (recv_body bo (Some chip) base Read_Header 10) (buf, 0, 0) (sim (10 # 0 # hs @ rest) (Suc t)) =
      Some (Inr ((0, buf\<lparr>header := hdr_of_bytes bo hs\<rparr>, 10), sim rest (Suc (Suc t))))"
    by (rule trans [OF loop_again [of _ _ _ "(buf\<lparr>header := hdr_of_bytes bo hs\<rparr>, 10, 10)" "sim rest (Suc (Suc t))"]
          loop_exit]) (simp_all add: recv_body_def andthen_def ret_def sim_burst [OF b _ assms(2)] t burst st)
  show ?thesis
    using loop1
    by (simp add: tpm2_fifo_read_data_def assms(2) andthen_def ret_def sim_wait [OF w, simplified] t)
qed

text \<open>
  The data phase with a burst count of 255. The loop wants \<^verbatim>\<open>read_size\<close> bytes of data, not
  \<^verbatim>\<open>read_size - TPM_HEADER_SIZE\<close>; when the array is shorter than that it runs over its end.
\<close>

lemma sim_read_data_overflow:
  assumes "length (data buf) = length ds" and "length (data buf) < n" and "n \<le> 256" and "length ds < 255"
    and "timeouts chip = Some tm" and "t < 10 ^ 9" and "10 < n"
  shows "tpm2_fifo_read_data bo (Some chip) buf base 0 10 (int n) (sim (0x10 # 0xFF # 0 # ds @ rest) t) =
    Some (Inl Out_Of_Bounds)"
proof -
  have t: "min t end_of_time = t" "min (Suc t) end_of_time = Suc t" using assms(6) by (simp_all add: end_of_time_def)
  have w: "(0x10 :: byte) AND TPM_STAT_AVAIL = TPM_STAT_AVAIL" by simp
  have b: "push_bit 8 (ucast (0 :: byte)) + ucast (0xFF :: byte) = (0xFF :: u16)" by simp
  have nn: "int n \<noteq> -1" by simp
  obtain k where k: "255 - length ds = Suc k" using assms(4) by (cases "255 - length ds") auto
  have "store bo Read_Data buf 0 ds = buf\<lparr>data := ds\<rparr>"
    using assms(1) by (simp add: store_def overlay_full)
  then have burst: "recv_burst bo 255 base Read_Data (int n) buf 0 10 (sim (ds @ rest) (Suc (Suc t))) = Some (Inl Out_Of_Bounds)"
    using sim_recv_burst [of ds 255 0 "int n" Read_Data buf bo base 10 rest "Suc (Suc t)"] assms k
    by (simp add: target_size_def in_target_def fail_def)
  have body: "recv_body bo (Some chip) base Read_Data (int n) (buf, 0, 10) (sim (0xFF # 0 # ds @ rest) (Suc t)) =
      Some (Inl Out_Of_Bounds)"
    using burst assms(7) by (simp add: recv_body_def andthen_def ret_def sim_burst [OF b _ assms(5)] t)
  show ?thesis
    using loop_fault [of "recv_body bo (Some chip) base Read_Data (int n)", OF body]
    by (simp add: tpm2_fifo_read_data_def assms(5) andthen_def ret_def sim_wait [OF w, simplified] t nn)
qed

lemma sim_receive_overflow:
  assumes "wf_cmd buf" and "length hs = 10" and "length ds = 246"
    and "246 < announced hs" and "announced hs \<le> 256" and "timeouts chip = Some tm" and "t < 10 ^ 8"
  shows "tpm2_fifo_receive bo (Some chip) buf (sim (0x10 # 10 # 0 # hs @ 0x10 # 0xFF # 0 # ds @ rest) t) =
    Some (Inl Out_Of_Bounds)"
proof -
  define b where "b = buf\<lparr>header := hdr_of_bytes bo hs\<rparr>"
  have n: "sint (be32toh bo (cmd_size (header b))) = int (announced hs)"
    using announced_size(2) [OF b_def refl] assms(5) by simp_all
  have c: "\<not> (256 :: u64) < scast (be32toh bo (cmd_size (header b)))"
    using size_check(1) [of "be32toh bo (cmd_size (header b))"] assms(5)
    by (simp add: announced_def b_def announced_header)
  have len: "length (data b) = 246" using assms(1) by (simp add: b_def wf_cmd_def)
  have rest: "tpm2_fifo_read_data bo (Some chip) b base 0 10 (int (announced hs))
      (sim (0x10 # 0xFF # 0 # ds @ rest) (t + 2)) = Some (Inl Out_Of_Bounds)" for base
    by (rule sim_read_data_overflow [OF _ _ _ _ assms(6)]) (use assms len in simp_all)
  show ?thesis
    unfolding tpm2_fifo_receive_def
    using sim_read_header [OF assms(2,6), of t bo buf _ "0x10 # 0xFF # 0 # ds @ rest"] rest assms(4,7) n c
    by (simp add: andthen_def ret_def b_def [symmetric] Let_def)
qed

section \<open>A constant platform\<close>

text \<open>Every byte read is \<open>c\<close>; every write is accepted.\<close>

definition const_ops :: "byte \<Rightarrow> unit tpm_spi_ops" where
  "const_ops c =
     \<lparr>get_access = (\<lambda>p. (0, p)), release_access = (\<lambda>p. p), start = (\<lambda>p. p), stop = (\<lambda>p. p),
      xfer = (\<lambda>n out inp p. (0, \<lambda>_. (case out of Some _ \<Rightarrow> 1 | None \<Rightarrow> c), p))\<rparr>"

definition const_sim :: "byte \<Rightarrow> (unit \<times> nat) tpm_lib" where
  "const_sim c =
     \<lparr>tpm_spidev = Some \<lparr>ops = with_clock (const_ops c)\<rparr>,
      tpm_timeout_ops = Some (tpm_lib_timeout_ops read_clock),
      tpm_last_transport_error = 0, interface = Some Fifo_Ops, plat = ((), 0)\<rparr>"

lemma opened_const: "opened_lib (with_clock (const_ops c)) (tpm_lib_timeout_ops read_clock) (const_sim c)"
  by (simp add: opened_lib_def ready_def const_sim_def)

lemma const_read:
  assumes "tpm_spidev s = Some \<lparr>ops = with_clock (const_ops c)\<rparr>"
  shows "tpm2_fifo_read_byte reg old s = Some (Inr ((0, c), s))"
proof -
  obtain u where "plat s = ((), u)" by (cases "plat s") auto
  then show ?thesis
    using assms
    by (simp add: tpm2_fifo_read_byte_def tpm2_fifo_io_def tpm2_spi_init_def tpm2_spi_start_transaction_def
        tpm2_spi_transfer_def tpm2_spi_end_transaction_def spidev_ops_def op_defs with_clock_def const_ops_def)
qed

lemma const_chunk:
  assumes "tpm_spidev s = Some \<lparr>ops = with_clock (const_ops c)\<rparr>"
    and "tpm2_fifo_read_chunk reg len old s = Some (Inr ((0, bs), t))"
  shows "set bs \<subseteq> {c}"
proof -
  obtain u where "plat s = ((), u)" by (cases "plat s") auto
  moreover have "len = 1 \<or> len = 2 \<or> len = 4"
    using assms(2) by (auto simp: tpm2_fifo_read_chunk_def ret_def split: if_splits)
  ultimately show ?thesis
    using assms
    by (auto simp: tpm2_fifo_read_chunk_def tpm2_fifo_io_def tpm2_spi_init_def tpm2_spi_start_transaction_def
        tpm2_spi_transfer_def tpm2_spi_end_transaction_def spidev_ops_def op_defs with_clock_def const_ops_def)
qed

lemma const_reads:
  "reg_run s tr t \<Longrightarrow> tpm_spidev s = Some \<lparr>ops = with_clock (const_ops c)\<rparr> \<Longrightarrow> set (reg_reads a tr) \<subseteq> {c}"
proof (induction rule: reg_run.induct)
  case (cons s e t tr u)
  then have "set (reg_reads a tr) \<subseteq> {c}"
    using frame.R_step [OF cons.hyps(1)] by (simp add: same_globals_def)
  moreover have "v = c" if "e = Reg_Read reg v rc" for reg v rc
    using cons.hyps(1) const_read [OF cons.prems] by (auto simp: that elim: reg_step_readE)
  moreover have "set bs \<subseteq> {c}" if "e = Reg_Chunk reg bs 0" for reg bs
    using cons.hyps(1) unfolding that by (elim reg_step_chunkE) (rule const_chunk [OF cons.prems])
  ultimately show ?case by (cases e) auto
qed simp

lemma const_short_responses:
  "short_responses bo chip (with_clock (const_ops 0x10)) (tpm_lib_timeout_ops read_clock)"
  unfolding short_responses_def
proof (intro allI impI, goal_cases)
  case (1 s buf b sz t)
  define fifo where "fifo = fifo_addr (LOCALITY_START_ADDRESS (locality chip))"
  obtain tr where tr: "reg_run s tr t" and b: "b = buf\<lparr>header := hdr_of_bytes bo (reg_reads fifo tr)\<rparr>"
    and len: "length (reg_reads fifo tr) = 10"
    using tracedD [OF traced_read_header [OF refl] 1(3)] by (auto simp: Let_def fifo_def)
  have sub: "set (reg_reads fifo tr) \<subseteq> {0x10}"
    by (rule const_reads [OF tr]) (use 1(1) in \<open>simp add: ready_def\<close>)
  have "reg_reads fifo tr ! i = 0x10" if "i < 10" for i
    using subsetD [OF sub nth_mem [of i "reg_reads fifo tr"]] that by (simp add: len)
  then have "cmd_size (header b) = htobe32 bo 0x10101010"
    using arg_cong [OF announced_header [of bo "reg_reads fifo tr"], of "htobe32 bo"] by (simp add: b of_be32_def)
  then show ?case by (simp add: too_long_def Let_def)
qed

end
