(* ===== verification/TPM_Builder.thy ===== *)
theory TPM_Builder
  imports TPM_Recv
begin

unbundle bit_operations_syntax

text \<open>
  The command builder of \<^verbatim>\<open>src/tpm2_cmds.c\<close> (lines 28 to 62 and 121 to 179). A builder is
  the command buffer it points to and a sticky error state; the functions are operations
  on it. The locale \<open>byte_sink\<close> is what the command functions rely on: fields are appended
  in big-endian order, a field that does not fit puts the builder into the error state for
  good. It is interpreted on \<open>tpm_update_buffer\<close>.
\<close>

section \<open>The builder\<close>

record tpm_cmd_builder_t =
  b_cmd :: tpm_cmd
  b_error_state :: int

definition tpm_cmd_init :: "byte_order \<Rightarrow> u16 \<Rightarrow> u32 \<Rightarrow> tpm_cmd_builder_t" where
  "tpm_cmd_init bo tg code =
     (let cmd = zero_cmd in
      \<lparr>b_cmd = cmd\<lparr>header := \<lparr>tag = htobe16 bo tg, cmd_size = htobe32 bo (of_nat TPM_HEADER_SIZE),
                          cmd_code = htobe32 bo code\<rparr>\<rparr>,
       b_error_state = TPM_SUCCESS\<rparr>)"

definition tpm_builder_finalize :: "(tpm_cmd_builder_t, int) op" where
  "tpm_builder_finalize = andthen get_state (\<lambda>b. ret (b_error_state b))"

text \<open>\<^verbatim>\<open>buf->data[i] = tpm_new_data.array[j]\<close> for the bytes of the union in turn.\<close>

fun copy_bytes :: "nat \<Rightarrow> byte list \<Rightarrow> (tpm_cmd_builder_t, unit) op" where
  "copy_bytes i [] = ret ()"
| "copy_bytes i (x # xs) =
     andthen get_state (\<lambda>b.
     if i < length (data (b_cmd b)) then
       andthen (modify (\<lambda>b. b\<lparr>b_cmd := (b_cmd b)\<lparr>data := (data (b_cmd b))[i := x]\<rparr>\<rparr>)) (\<lambda>_.
       copy_bytes (i + 1) xs)
     else fail Out_Of_Bounds)"

definition set_error :: "int \<Rightarrow> (tpm_cmd_builder_t, int) op" where
  "set_error e = andthen (modify (\<lambda>b. b\<lparr>b_error_state := e\<rparr>)) (\<lambda>_. ret e)"

text \<open>
  \<^verbatim>\<open>size_t\<close> has 64 bits: \<open>command_size + new_len\<close> is a 64-bit sum; the start index is the
  32-bit difference. \<open>new_bytes\<close> are the bytes of the union that the loop copies.
\<close>

definition new_bytes :: "byte_order \<Rightarrow> u32 \<Rightarrow> u64 \<Rightarrow> byte list option" where
  "new_bytes bo new_data new_len =
     (if new_len = 1 then Some [ucast (new_data AND 0xFF)]
      else if new_len = 2 then Some (mem16 bo (htobe16 bo (ucast (new_data AND 0xFFFF))))
      else if new_len = 4 then Some (mem32 bo (htobe32 bo new_data))
      else None)"

definition tpm_update_buffer :: "byte_order \<Rightarrow> u32 \<Rightarrow> u64 \<Rightarrow> (tpm_cmd_builder_t, int) op" where
  "tpm_update_buffer bo new_data new_len =
     andthen get_state (\<lambda>b.
     if b_error_state b \<noteq> TPM_SUCCESS then ret (b_error_state b) else
     let command_size = be32toh bo (cmd_size (header (b_cmd b))) in
     if ucast command_size + new_len > of_nat MAX_SIZE_CMDBUF then set_error TPM_INVALID_PARAM else
     let start = command_size - of_nat TPM_HEADER_SIZE in
     case new_bytes bo new_data new_len of
       None \<Rightarrow> set_error TPM_INVALID_PARAM
     | Some bytes \<Rightarrow>
         andthen (copy_bytes (unat start) bytes) (\<lambda>_.
         andthen (modify (\<lambda>b. b\<lparr>b_cmd := (b_cmd b)\<lparr>header := (header (b_cmd b))
            \<lparr>cmd_size := htobe32 bo (ucast (ucast command_size + new_len :: u64))\<rparr>\<rparr>\<rparr>)) (\<lambda>_.
         ret TPM_SUCCESS)))"

text \<open>A field of a command: its value and its size in bytes.\<close>

type_synonym field = "u32 \<times> u64"

definition add_field :: "byte_order \<Rightarrow> field \<Rightarrow> (tpm_cmd_builder_t, int) op" where
  "add_field bo = (\<lambda>(v, n). tpm_update_buffer bo v n)"

text \<open>\<^verbatim>\<open>for (i = 0; i < n; i++) tpm_update_buffer(&builder, xs[i], sizeof(uint8_t))\<close>.\<close>

fun add_bytes :: "byte_order \<Rightarrow> byte list \<Rightarrow> nat \<Rightarrow> nat \<Rightarrow> (tpm_cmd_builder_t, unit) op" where
  "add_bytes bo xs i 0 = ret ()"
| "add_bytes bo xs i (Suc n) =
     andthen (array_get xs i) (\<lambda>x.
     andthen (tpm_update_buffer bo (ucast x) 1) (\<lambda>_.
     add_bytes bo xs (i + 1) n))"

section \<open>The contract\<close>

text \<open>What a field contributes to the command, whatever the host's byte order.\<close>

definition field_bytes :: "field \<Rightarrow> byte list" where
  "field_bytes = (\<lambda>(v, n). if n = 1 then [ucast v] else if n = 2 then be16 (ucast v) else be32 v)"

definition valid_field :: "field \<Rightarrow> bool" where
  "valid_field = (\<lambda>(v, n). n = 1 \<or> n = 2 \<or> n = 4)"

definition append_within :: "nat \<Rightarrow> byte list option \<Rightarrow> byte list \<Rightarrow> byte list option" where
  "append_within cap c bs =
     (case c of None \<Rightarrow> None | Some xs \<Rightarrow> if length xs + length bs \<le> cap then Some (xs @ bs) else None)"

lemma append_within_append:
  "append_within cap (append_within cap c bs) cs = append_within cap c (bs @ cs)"
  by (auto simp: append_within_def split: option.split)

lemma append_within_Nil:
  "(\<And>xs. c = Some xs \<Longrightarrow> length xs \<le> cap) \<Longrightarrow> append_within cap c [] = c"
  by (auto simp: append_within_def split: option.split)

locale byte_sink =
  fixes emit :: "'x \<Rightarrow> ('s, 'a) op" and enc :: "'x \<Rightarrow> byte list" and valid :: "'x \<Rightarrow> bool"
    and inv :: "'s \<Rightarrow> bool" and contents :: "'s \<Rightarrow> byte list option" and cap :: nat
  assumes emit_law: "inv s \<Longrightarrow> valid x \<Longrightarrow>
      wp False False (emit x) (\<lambda>_ t. inv t \<and> contents t = append_within cap (contents s) (enc x)) s"
    and contents_cap: "inv s \<Longrightarrow> contents s = Some xs \<Longrightarrow> length xs \<le> cap"
begin

lemma emit_each:
  "inv s \<Longrightarrow> \<forall>x \<in> set xs. valid x \<Longrightarrow>
    wp False False (each emit xs)
      (\<lambda>_ t. inv t \<and> contents t = append_within cap (contents s) (concat (map enc xs))) s"
proof (induction xs arbitrary: s)
  case Nil
  then show ?case using contents_cap [of s] by (simp add: wp_simps append_within_Nil)
next
  case (Cons x xs)
  then have x: "valid x" by simp
  show ?case
    unfolding each.simps
  proof (rule wp_seq [OF emit_law [OF Cons.prems(1) x]], goal_cases)
    case (1 a t)
    with Cons.prems show ?case
      by (intro wp_mono [OF Cons.IH]) (auto simp: append_within_append)
  qed
qed

end

section \<open>The builder meets it\<close>

definition cmd_length :: "byte_order \<Rightarrow> tpm_cmd \<Rightarrow> nat" where
  "cmd_length bo c = unat (be32toh bo (cmd_size (header c)))"

text \<open>
  The invariant: the size in the header lies between the header's own and the buffer's, the
  header keeps tag and code, and the error state is one of two.
\<close>

definition builder_inv :: "byte_order \<Rightarrow> u16 \<Rightarrow> u32 \<Rightarrow> tpm_cmd_builder_t \<Rightarrow> bool" where
  "builder_inv bo tg code b \<longleftrightarrow>
     wf_cmd (b_cmd b) \<and> TPM_HEADER_SIZE \<le> cmd_length bo (b_cmd b) \<and>
     cmd_length bo (b_cmd b) \<le> MAX_SIZE_CMDBUF \<and>
     b_error_state b \<in> {TPM_SUCCESS, TPM_INVALID_PARAM} \<and>
     tag (header (b_cmd b)) = htobe16 bo tg \<and> cmd_code (header (b_cmd b)) = htobe32 bo code"

definition builder_contents :: "byte_order \<Rightarrow> tpm_cmd_builder_t \<Rightarrow> byte list option" where
  "builder_contents bo b =
     (if b_error_state b = TPM_SUCCESS
      then Some (take (cmd_length bo (b_cmd b) - TPM_HEADER_SIZE) (data (b_cmd b))) else None)"

lemma low_masks: "(0xFF :: u32) = mask 8" "(0xFFFF :: u32) = mask 16"
  by (simp_all add: mask_eq_exp_minus_1)

lemma ucast_low [simp]:
  "ucast (v AND 0xFF) = (ucast (v :: u32) :: byte)" "ucast (v AND 0xFFFF) = (ucast (v :: u32) :: u16)"
  unfolding low_masks by (rule bit_word_eqI; simp add: bit_simps)+

lemma new_bytes_field: "valid_field (v, n) \<Longrightarrow> new_bytes bo v n = Some (field_bytes (v, n))"
  by (auto simp: valid_field_def new_bytes_def field_bytes_def)

lemma length_field_bytes: "valid_field (v, n) \<Longrightarrow> length (field_bytes (v, n)) = unat n"
  by (auto simp: valid_field_def field_bytes_def)

lemma copy_bytes_wp:
  "i + length xs \<le> length (data (b_cmd b)) \<Longrightarrow>
    wp False False (copy_bytes i xs)
      (\<lambda>_ t. t = b\<lparr>b_cmd := (b_cmd b)\<lparr>data := overlay (data (b_cmd b)) i xs\<rparr>\<rparr>) b"
proof (induction xs arbitrary: i b)
  case Nil
  then show ?case by (simp add: wp_simps)
next
  case (Cons x xs)
  show ?case
    using Cons.prems
    by (auto simp: wp_simps overlay_Cons intro!: wp_mono [OF Cons.IH])
qed

lemma take_overlay: "i \<le> length xs \<Longrightarrow> take (i + length ys) (overlay xs i ys) = take i xs @ ys"
  by (simp add: overlay_def)

text \<open>The size test of the code is the one on natural numbers.\<close>

lemma size_test:
  fixes n :: u64
  assumes "unat n \<le> 4"
  shows "ucast (c :: u32) + n > 256 \<longleftrightarrow> unat c + unat n > 256"
    and "unat c + unat n \<le> 256 \<Longrightarrow> unat (ucast (ucast c + n) :: u32) = unat c + unat n"
proof -
  have "unat c < 2 ^ 32" using unsigned_less [of c, where 'a = nat] by simp
  then have sum: "unat (ucast c + n) = unat c + unat n"
    using assms by (simp add: unat_word_ariths)
  then show "ucast c + n > 256 \<longleftrightarrow> unat c + unat n > 256"
    by (simp add: word_less_nat_alt)
  assume "unat c + unat n \<le> 256"
  then show "unat (ucast (ucast c + n) :: u32) = unat c + unat n"
    by (simp add: unsigned_ucast_eq sum take_bit_nat_eq_self)
qed

lemma update_buffer_wp:
  assumes inv: "builder_inv bo tg code b" and valid: "valid_field (v, n)"
  shows "wp False False (tpm_update_buffer bo v n)
    (\<lambda>rc t. rc = b_error_state t \<and> builder_inv bo tg code t \<and>
       builder_contents bo t = append_within MAX_CMD_DATA (builder_contents bo b) (field_bytes (v, n))) b"
proof (cases "b_error_state b = TPM_SUCCESS")
  case False
  then show ?thesis
    using inv by (simp add: tpm_update_buffer_def wp_simps builder_contents_def append_within_def)
next
  case ok: True
  define c where "c = be32toh bo (cmd_size (header (b_cmd b)))"
  have c: "10 \<le> unat c" "unat c \<le> 256" and len: "length (data (b_cmd b)) = 246"
    using inv by (simp_all add: builder_inv_def c_def cmd_length_def wf_cmd_def)
  have n: "unat n \<le> 4" "length (field_bytes (v, n)) = unat n"
    using valid length_field_bytes [OF valid] by (auto simp: valid_field_def)
  have start: "unat (c - 10) = unat c - 10"
    using c(1) by (simp add: unat_sub_if' )
  show ?thesis
  proof (cases "unat c + unat n > 256")
    case True
    then show ?thesis
      using ok inv size_test(1) [OF n(1), of c] c n len
      by (auto simp: tpm_update_buffer_def wp_simps set_error_def c_def [symmetric] builder_inv_def
          builder_contents_def append_within_def cmd_length_def Let_def)
  next
    case False
    have "wp False False (copy_bytes (unat c - 10) (field_bytes (v, n)))
        (\<lambda>_ t. t = b\<lparr>b_cmd := (b_cmd b)\<lparr>data := overlay (data (b_cmd b)) (unat c - 10) (field_bytes (v, n))\<rparr>\<rparr>) b"
      by (rule copy_bytes_wp) (use False c n len in simp)
    then show ?thesis
      using ok inv size_test [OF n(1), of c] c n len False take_overlay [of "unat c - 10" "data (b_cmd b)" "field_bytes (v, n)"]
      by (auto simp: tpm_update_buffer_def wp_simps c_def [symmetric] builder_inv_def
          builder_contents_def append_within_def cmd_length_def Let_def new_bytes_field [OF valid] start
          wf_cmd_def elim!: wp_mono)
  qed
qed

interpretation builder: byte_sink "add_field bo" field_bytes valid_field "builder_inv bo tg code"
  "builder_contents bo" MAX_CMD_DATA for bo tg code
proof
  show "wp False False (add_field bo x) (\<lambda>_ t. builder_inv bo tg code t \<and>
      builder_contents bo t = append_within MAX_CMD_DATA (builder_contents bo s) (field_bytes x)) s"
    if "builder_inv bo tg code s" and "valid_field x" for s x
    using update_buffer_wp [of bo tg code s "fst x" "snd x"] that
    by (auto simp: add_field_def case_prod_unfold elim!: wp_mono)
  show "length xs \<le> MAX_CMD_DATA" if "builder_inv bo tg code s" and "builder_contents bo s = Some xs" for s xs
    using that by (auto simp: builder_contents_def builder_inv_def wf_cmd_def split: if_splits)
qed

text \<open>Reading the bytes of an array is the only thing that can fail in \<open>add_bytes\<close>.\<close>

lemma add_bytes_each:
  "i + n \<le> length xs \<Longrightarrow>
    add_bytes bo xs i n = each (add_field bo) (map (\<lambda>x. (ucast x, 1)) (take n (drop i xs)))"
proof (induction n arbitrary: i)
  case (Suc n)
  then have "drop i xs = xs ! i # drop (Suc i) xs" by (simp add: Cons_nth_drop_Suc)
  then have "take (Suc n) (drop i xs) = xs ! i # take n (drop (Suc i) xs)" by simp
  then show ?case using Suc by (simp add: array_get_def add_field_def)
qed simp

lemma add_bytes_all:
  "add_bytes bo xs 0 (length xs) = each (add_field bo) (map (\<lambda>x. (ucast x, 1)) xs)"
  by (simp add: add_bytes_each)

text \<open>
  The command that is built from a list of fields: header and fields, big-endian, with the
  total size in the header; or an error when they do not fit into the buffer.
\<close>

definition wire :: "u16 \<Rightarrow> u32 \<Rightarrow> byte list \<Rightarrow> byte list" where
  "wire tg code bs = be16 tg @ be32 (of_nat (TPM_HEADER_SIZE + length bs)) @ be32 code @ bs"

definition built :: "byte_order \<Rightarrow> u16 \<Rightarrow> u32 \<Rightarrow> byte list \<Rightarrow> tpm_cmd_builder_t \<Rightarrow> bool" where
  "built bo tg code bs b \<longleftrightarrow>
     (if TPM_HEADER_SIZE + length bs \<le> MAX_SIZE_CMDBUF
      then b_error_state b = TPM_SUCCESS \<and> cmd_bytes bo (b_cmd b) = wire tg code bs \<and> wf_cmd (b_cmd b) \<and>
        cmd_length bo (b_cmd b) = TPM_HEADER_SIZE + length bs
      else b_error_state b = TPM_INVALID_PARAM)"

lemma init_inv: "builder_inv bo tg code (tpm_cmd_init bo tg code)"
  by (simp add: builder_inv_def tpm_cmd_init_def cmd_length_def zero_cmd_def wf_cmd_def Let_def)

lemma init_contents: "builder_contents bo (tpm_cmd_init bo tg code) = Some []"
  by (simp add: builder_contents_def tpm_cmd_init_def cmd_length_def Let_def)

lemma built_contents:
  assumes inv: "builder_inv bo tg code b" and c: "builder_contents bo b = append_within MAX_CMD_DATA (Some []) bs"
  shows "built bo tg code bs b"
proof (cases "TPM_HEADER_SIZE + length bs \<le> MAX_SIZE_CMDBUF")
  case True
  then have fits: "length bs \<le> MAX_CMD_DATA" by simp
  from c fits have ok: "b_error_state b = TPM_SUCCESS"
    and bs: "take (cmd_length bo (b_cmd b) - TPM_HEADER_SIZE) (data (b_cmd b)) = bs"
    by (auto simp: append_within_def builder_contents_def split: if_splits)
  have n: "10 \<le> cmd_length bo (b_cmd b)" "cmd_length bo (b_cmd b) \<le> 256" "length (data (b_cmd b)) = 246"
    using inv by (simp_all add: builder_inv_def wf_cmd_def)
  then have len: "cmd_length bo (b_cmd b) = 10 + length bs" using arg_cong [OF bs, of length] by simp
  have "be32toh bo (cmd_size (header (b_cmd b))) = of_nat (10 + length bs)"
    unfolding len [symmetric] cmd_length_def by simp
  then have "cmd_size (header (b_cmd b)) = htobe32 bo (of_nat (10 + length bs))"
    using htobe32_be32toh [of bo "cmd_size (header (b_cmd b))"] by simp
  then have "hdr_bytes bo (header (b_cmd b)) = be16 tg @ be32 (of_nat (10 + length bs)) @ be32 code"
    using inv by (simp add: hdr_bytes_def builder_inv_def)
  then show ?thesis
    using True ok bs len inv
    by (simp add: built_def cmd_bytes_def wire_def builder_inv_def flip: cmd_length_def)
next
  case False
  then show ?thesis
    using inv c by (auto simp: built_def builder_inv_def builder_contents_def append_within_def split: if_splits)
qed

theorem build_fields:
  assumes "\<forall>x \<in> set xs. valid_field x"
  shows "wp False False (each (add_field bo) xs) (\<lambda>_ b. built bo tg code (concat (map field_bytes xs)) b)
    (tpm_cmd_init bo tg code)"
  by (rule wp_mono [OF builder.emit_each [OF init_inv assms]])
    (auto simp: init_contents intro: built_contents)

end
