(* ===== verification/TPM_Iter.thy ===== *)
theory TPM_Iter
  imports TPM_Recv
begin

unbundle bit_operations_syntax

text \<open>
  The buffer iterator of \<^verbatim>\<open>src/tpm2_cmds.c\<close> (lines 181 to 304). The state of its functions is
  the iterator they are given, \<open>None\<close> when that pointer is null. The pointer inside the
  iterator is the memory from its position to the end of the object, so a read behind the
  object is a fault. Output pointers are \<open>None\<close> when null, otherwise the old value of the
  variable. The locale \<open>byte_source\<close> is what the parsers rely on; it is interpreted on the
  iterator.
\<close>

section \<open>The iterator\<close>

record tpm_buf_iter_t =
  ptr :: "byte list option"
  remain :: u64
  error_state :: int

type_synonym iter_st = "tpm_buf_iter_t option"

text \<open>\<^verbatim>\<open>tpm_buf_iter_t iter = { 0 }\<close>.\<close>

definition iter_zero :: iter_st where
  "iter_zero = Some \<lparr>ptr = None, remain = 0, error_state = 0\<rparr>"

text \<open>
  The common text of the four read functions: the null checks, the sticky error, the check
  of \<^verbatim>\<open>remain\<close>, the access to \<open>n\<close> bytes, the two updates.
\<close>

definition iter_read :: "u64 \<Rightarrow> (byte list \<Rightarrow> 'a) \<Rightarrow> 'a option \<Rightarrow> (iter_st, int \<times> 'a option) op" where
  "iter_read n decode out =
     andthen get_state (\<lambda>iter.
     case (iter, out) of
       (Some it, Some old) \<Rightarrow>
         (case ptr it of
            None \<Rightarrow> ret (TPM_INVALID_PARAM, out)
          | Some mem \<Rightarrow>
              if error_state it \<noteq> TPM_SUCCESS then ret (error_state it, out) else
              if remain it < n then
                andthen (modify (\<lambda>_. Some (it\<lparr>error_state := TPM_ERR_RESPONSE\<rparr>))) (\<lambda>_.
                ret (TPM_ERR_RESPONSE, out))
              else if length mem < unat n then fail Out_Of_Bounds
              else
                andthen (modify (\<lambda>_. Some (it\<lparr>ptr := Some (drop (unat n) mem), remain := remain it - n\<rparr>))) (\<lambda>_.
                ret (TPM_SUCCESS, Some (decode mem))))
     | _ \<Rightarrow> ret (TPM_INVALID_PARAM, out))"

definition iter_read_u8 :: "byte option \<Rightarrow> (iter_st, int \<times> byte option) op" where
  "iter_read_u8 = iter_read 1 (\<lambda>p. p ! 0)"

definition iter_read_u16_be :: "u16 option \<Rightarrow> (iter_st, int \<times> u16 option) op" where
  "iter_read_u16_be = iter_read 2 (\<lambda>p. push_bit 8 (ucast (p ! 0)) OR ucast (p ! 1))"

definition iter_read_u32_be :: "u32 option \<Rightarrow> (iter_st, int \<times> u32 option) op" where
  "iter_read_u32_be = iter_read 4 (\<lambda>p.
     push_bit 24 (ucast (p ! 0)) OR push_bit 16 (ucast (p ! 1)) OR
     push_bit 8 (ucast (p ! 2)) OR ucast (p ! 3))"

text \<open>The value read is a pointer into the same memory.\<close>

definition iter_read_ptr ::
  "u64 \<Rightarrow> byte list option option \<Rightarrow> (iter_st, int \<times> byte list option option) op" where
  "iter_read_ptr len = iter_read len (\<lambda>p. Some p)"

definition iter_error :: "(iter_st, int) op" where
  "iter_error = andthen get_state (\<lambda>i. andthen (deref i) (\<lambda>it. ret (error_state it)))"

text \<open>
  The locals \<^verbatim>\<open>more_data\<close> and \<^verbatim>\<open>cap\<close> have no initial value in the code and 0 here; \<^verbatim>\<open>cap\<close> is
  used only after a successful read.
\<close>

definition getcap_payload_start :: "byte_order \<Rightarrow> tpm_cmd option \<Rightarrow> u32 \<Rightarrow> (iter_st, int) op" where
  "getcap_payload_start bo resp expected_cap =
     andthen get_state (\<lambda>iter_out.
     case (resp, iter_out) of
       (Some r, Some it) \<Rightarrow>
         (let resp_size = be32toh bo (cmd_size (header r)) in
          if unat resp_size < TPM_HEADER_SIZE \<or> unat resp_size > sizeof_tpm_cmd then ret TPM_ERR_RESPONSE else
          andthen (modify (\<lambda>_. Some (it\<lparr>ptr := Some (data r),
                                     remain := ucast (resp_size - of_nat TPM_HEADER_SIZE)\<rparr>))) (\<lambda>_.
          andthen (iter_read_u8 (Some 0)) (\<lambda>(_, more_data).
          andthen (iter_read_u32_be (Some 0)) (\<lambda>(_, cap).
          andthen iter_error (\<lambda>err.
          if err \<noteq> TPM_SUCCESS then ret err else
          if cap \<noteq> Some expected_cap then ret TPM_ERR_RESPONSE else
          ret TPM_SUCCESS)))))
     | _ \<Rightarrow> ret TPM_INVALID_PARAM)"

section \<open>The contract\<close>

text \<open>
  The client's view of a source: the bytes still to come, or \<open>None\<close> once a read has failed.
  A read of \<open>n\<close> bytes consumes them and decodes memory that begins with what was to come; a
  read of more than there are fails, for good.
\<close>

locale byte_source =
  fixes inv :: "'s \<Rightarrow> bool" and view :: "'s \<Rightarrow> byte list option"
    and read :: "u64 \<Rightarrow> (byte list \<Rightarrow> 'a) \<Rightarrow> 'a option \<Rightarrow> ('s, int \<times> 'a option) op"
    and status :: "('s, int) op"
  assumes read_law: "inv s \<Longrightarrow>
      wp False False (read n dec (Some old)) (\<lambda>(rc, out) t. inv t \<and>
        (case view s of
           None \<Rightarrow> view t = None \<and> out = Some old
         | Some bs \<Rightarrow>
             if unat n \<le> length bs
             then view t = Some (drop (unat n) bs) \<and> (\<exists>mem. prefix bs mem \<and> out = Some (dec mem))
             else view t = None \<and> out = Some old)) s"
    and status_law: "inv s \<Longrightarrow>
      wp False False status (\<lambda>rc t. t = s \<and>
        rc = (if view s = None then TPM_ERR_RESPONSE else TPM_SUCCESS)) s"
begin

lemma read_enough:
  assumes "inv s" and "view s = Some bs" and "unat n \<le> length bs"
  shows "wp False False (read n dec (Some old))
    (\<lambda>a t. inv t \<and> view t = Some (drop (unat n) bs) \<and> (\<exists>mem. prefix bs mem \<and> snd a = Some (dec mem))) s"
  by (rule wp_mono [OF read_law [OF assms(1)]]) (use assms(2,3) in auto)

lemma read_short:
  assumes "inv s" and "\<And>bs. view s = Some bs \<Longrightarrow> length bs < unat n"
  shows "wp False False (read n dec (Some old)) (\<lambda>a t. snd a = Some old \<and> inv t \<and> view t = None) s"
  by (rule wp_mono [OF read_law [OF assms(1)]]) (use assms(2) in \<open>auto split: option.splits if_splits\<close>)

text \<open>A decoder that looks only at the bytes it consumes.\<close>

lemma read_value:
  assumes "inv s" and "view s = Some (bs @ rest)" and "length bs = unat n"
    and "\<And>mem. dec (bs @ mem) = v"
  shows "wp False False (read n dec (Some old))
    (\<lambda>a t. snd a = Some v \<and> inv t \<and> view t = Some rest) s"
  by (rule wp_mono [OF read_enough [OF assms(1,2)]]) (use assms(3,4) in \<open>auto simp: prefix_def\<close>)

lemma status_ok: "inv s \<Longrightarrow> view s = Some bs \<Longrightarrow> wp False False status (\<lambda>rc t. t = s \<and> rc = TPM_SUCCESS) s"
  by (rule wp_mono [OF status_law]) auto

lemma status_failed: "inv s \<Longrightarrow> view s = None \<Longrightarrow> wp False False status (\<lambda>rc t. t = s \<and> rc = TPM_ERR_RESPONSE) s"
  by (rule wp_mono [OF status_law]) auto

end

section \<open>The iterator meets it\<close>

definition iter_inv :: "iter_st \<Rightarrow> bool" where
  "iter_inv i \<longleftrightarrow> (\<exists>it mem. i = Some it \<and> ptr it = Some mem \<and> unat (remain it) \<le> length mem \<and>
     error_state it \<in> {TPM_SUCCESS, TPM_ERR_RESPONSE})"

definition iter_view :: "iter_st \<Rightarrow> byte list option" where
  "iter_view i =
     (case i of None \<Rightarrow> None
      | Some it \<Rightarrow> if error_state it = TPM_SUCCESS
                   then map_option (take (unat (remain it))) (ptr it) else None)"

lemma take_view:
  fixes r n :: u64
  assumes "\<not> r < n" and "unat r \<le> length mem"
  shows "unat n \<le> length (take (unat r) mem)" and "unat n \<le> length mem"
    and "drop (unat n) (take (unat r) mem) = take (unat (r - n)) (drop (unat n) mem)"
    and "unat (r - n) \<le> length (drop (unat n) mem)"
proof -
  have le: "unat n \<le> unat r" using assms(1) by (simp add: word_less_nat_alt)
  then have sub: "unat (r - n) = unat r - unat n" by (simp add: unat_sub word_le_nat_alt)
  show "unat n \<le> length (take (unat r) mem)" "unat n \<le> length mem"
    "drop (unat n) (take (unat r) mem) = take (unat (r - n)) (drop (unat n) mem)"
    "unat (r - n) \<le> length (drop (unat n) mem)"
    using le assms(2) by (simp_all add: sub drop_take)
qed

interpretation iter: byte_source iter_inv iter_view iter_read iter_error
proof
  fix s :: iter_st and n and dec :: "byte list \<Rightarrow> 'a" and old
  assume "iter_inv s"
  then obtain it mem where s: "s = Some it" "ptr it = Some mem" "unat (remain it) \<le> length mem"
    "error_state it \<in> {TPM_SUCCESS, TPM_ERR_RESPONSE}" by (auto simp: iter_inv_def)
  show "wp False False iter_error (\<lambda>rc t. t = s \<and>
      rc = (if iter_view s = None then TPM_ERR_RESPONSE else TPM_SUCCESS)) s"
    using s by (auto simp: iter_error_def wp_simps iter_view_def)
  show "wp False False (iter_read n dec (Some old)) (\<lambda>(rc, out) t. iter_inv t \<and>
        (case iter_view s of
           None \<Rightarrow> iter_view t = None \<and> out = Some old
         | Some bs \<Rightarrow>
             if unat n \<le> length bs
             then iter_view t = Some (drop (unat n) bs) \<and> (\<exists>mem. prefix bs mem \<and> out = Some (dec mem))
             else iter_view t = None \<and> out = Some old)) s"
  proof (cases "error_state it = TPM_SUCCESS \<and> \<not> remain it < n")
    case True
    then have nl: "\<not> remain it < n" by simp
    note tv = take_view [OF nl s(3)]
    have "\<exists>m. prefix (take (unat (remain it)) mem) m \<and> dec mem = dec m"
      using take_is_prefix by blast
    with True s tv show ?thesis
      by (auto simp: iter_read_def wp_simps iter_inv_def iter_view_def not_less)
  next
    case False
    then show ?thesis
      using s by (auto simp: iter_read_def wp_simps iter_inv_def iter_view_def word_less_nat_alt)
  qed
qed

text \<open>The fixed-size reads on the view.\<close>

lemma read_u8:
  assumes "iter_inv s" and "iter_view s = Some (a # rest)"
  shows "wp False False (iter_read_u8 (Some old)) (\<lambda>r t. snd r = Some a \<and> iter_inv t \<and> iter_view t = Some rest) s"
  unfolding iter_read_u8_def using assms
  by (intro iter.read_value [where bs = "[a]"]) simp_all

lemma read_u16:
  assumes "iter_inv s" and "iter_view s = Some (a # b # rest)"
  shows "wp False False (iter_read_u16_be (Some old))
    (\<lambda>r t. snd r = Some (of_be16 a b) \<and> iter_inv t \<and> iter_view t = Some rest) s"
  unfolding iter_read_u16_be_def of_be16_def using assms
  by (intro iter.read_value [where bs = "[a, b]"]) simp_all

lemma read_u32:
  assumes "iter_inv s" and "iter_view s = Some (a # b # c # d # rest)"
  shows "wp False False (iter_read_u32_be (Some old))
    (\<lambda>r t. snd r = Some (of_be32 a b c d) \<and> iter_inv t \<and> iter_view t = Some rest) s"
  unfolding iter_read_u32_be_def of_be32_def using assms
  by (intro iter.read_value [where bs = "[a, b, c, d]"]) simp_all

lemma read_failed:
  assumes "iter_inv s" and "\<And>bs. iter_view s = Some bs \<Longrightarrow> length bs < unat n"
  shows "wp False False (iter_read n dec (Some old))
    (\<lambda>r t. snd r = Some old \<and> iter_inv t \<and> iter_view t = None) s"
  by (rule iter.read_short [OF assms])

section \<open>The payload of a capability response\<close>

definition payload :: "byte_order \<Rightarrow> u32 \<Rightarrow> tpm_cmd \<Rightarrow> byte list option" where
  "payload bo cap r =
     (let n = unat (be32toh bo (cmd_size (header r))) in
      if TPM_HEADER_SIZE + 5 \<le> n \<and> n \<le> sizeof_tpm_cmd \<and> take 4 (drop 1 (data r)) = be32 cap
      then Some (drop 5 (take (n - TPM_HEADER_SIZE) (data r))) else None)"

lemma list_of_5: "5 \<le> length xs \<Longrightarrow> \<exists>a b c d e ys. xs = a # b # c # d # e # ys"
  by (auto simp: numeral_eq_Suc Suc_le_length_iff)

lemma of_be32_eq_iff: "of_be32 a b c d = cap \<longleftrightarrow> [a, b, c, d] = be32 cap"
  by (metis be32_of_be32 be32_inject)

lemma payload_start_wp:
  assumes "wf_cmd r" and "iter_st = Some it" and "error_state it = TPM_SUCCESS"
  shows "wp False False (getcap_payload_start bo (Some r) cap)
    (\<lambda>rc t. case payload bo cap r of
        None \<Rightarrow> rc = TPM_ERR_RESPONSE
      | Some bs \<Rightarrow> rc = TPM_SUCCESS \<and> iter_inv t \<and> iter_view t = Some bs) iter_st"
proof -
  define n where "n = unat (be32toh bo (cmd_size (header r)))"
  have len: "length (data r) = 246" using assms(1) by (simp add: wf_cmd_def)
  show ?thesis
  proof (cases "10 \<le> n \<and> n \<le> 256")
    case False
    then show ?thesis
      using assms(2) by (auto simp: getcap_payload_start_def wp_simps payload_def n_def [symmetric] Let_def)
  next
    case True
    define s where "s = Some (it\<lparr>ptr := Some (data r), remain := ucast (be32toh bo (cmd_size (header r)) - 10)\<rparr>)"
    have rem: "unat (be32toh bo (cmd_size (header r)) - 10) = n - 10"
      using True by (simp add: n_def unat_sub_if')
    have inv: "iter_inv s" and view: "iter_view s = Some (take (n - 10) (data r))"
      using assms(3) True rem len by (auto simp: s_def iter_inv_def iter_view_def)
    have rest: "wp False False (andthen (iter_read_u8 (Some 0)) (\<lambda>(_, more_data).
          andthen (iter_read_u32_be (Some 0)) (\<lambda>(_, cap').
          andthen iter_error (\<lambda>err.
          if err \<noteq> TPM_SUCCESS then ret err else
          if cap' \<noteq> Some cap then ret TPM_ERR_RESPONSE else
          ret TPM_SUCCESS)))) (\<lambda>rc t. case payload bo cap r of
        None \<Rightarrow> rc = TPM_ERR_RESPONSE
      | Some bs \<Rightarrow> rc = TPM_SUCCESS \<and> iter_inv t \<and> iter_view t = Some bs) s"
    proof (cases "15 \<le> n")
      case True
      then have "5 \<le> length (take (n - 10) (data r))" using len by simp
      then obtain a b c d e ys where ys: "take (n - 10) (data r) = a # b # c # d # e # ys"
        using list_of_5 by blast
      have "take 4 (drop 1 (data r)) = take 4 (drop 1 (take (n - 10) (data r)))"
        using True by (simp add: drop_take min_def)
      then have pay: "payload bo cap r = (if [b, c, d, e] = be32 cap then Some ys else None)"
        using True \<open>10 \<le> n \<and> n \<le> 256\<close>
        by (simp add: payload_def n_def [symmetric] Let_def ys)
      show ?thesis
        unfolding case_prod_unfold
      proof (rule wp_seq [OF read_u8 [OF inv view [unfolded ys]]], elim conjE,
          rule wp_seq [OF read_u32], assumption+, elim conjE,
          rule wp_seq [OF iter.status_ok], assumption+, goal_cases)
        case (1 x t y u z v)
        then show ?case by (auto simp: wp_simps pay of_be32_eq_iff)
      qed
    next
      case False
      then have pay: "payload bo cap r = None" by (simp add: payload_def n_def [symmetric] Let_def)
      show ?thesis
        unfolding case_prod_unfold iter_read_u8_def iter_read_u32_be_def pay
      proof (rule wp_seq [OF iter.read_law [OF inv]], rule wp_seq [OF read_failed], goal_cases)
        case (2 x t bs)
        then show ?case using False view len by (auto split: if_splits)
      next
        case (3 x t y u)
        then show ?case by (auto simp: wp_simps intro!: wp_mono [OF iter.status_failed])
      qed auto
    qed
    have nn: "\<not> (n < 10 \<or> 256 < n)" using True by auto
    show ?thesis
      using rest nn by (simp add: getcap_payload_start_def wp_simps assms(2) Let_def n_def [symmetric] s_def)
  qed
qed

end
