(* ===== verification/TPM_Parse.thy ===== *)
theory TPM_Parse
  imports TPM_Iter
begin

unbundle bit_operations_syntax

text \<open>
  The parsers of capability responses of \<^verbatim>\<open>src/tpm2_cmds.c\<close> (lines 362 to 599). Each is
  refined to a decoder on byte lists: the entries that are completely there, and whether
  all announced entries are. The parsers run on an iterator of their own.
\<close>

section \<open>Queries\<close>

record tpm_alg_query_t =
  alg_id :: u16
  enabled :: bool

record tpm_pcr_bank_query_t =
  bq_hash_alg :: u16
  bq_pcr_select :: "byte list"

section \<open>The parsers\<close>

text \<open>Reading into a variable of the caller; the return code is ignored.\<close>

definition into :: "('a option \<Rightarrow> (iter_st, int \<times> 'a option) op) \<Rightarrow> 'a \<Rightarrow> (iter_st, 'a) op" where
  "into rd v = andthen (rd (Some v)) (\<lambda>(_, out). ret (case out of Some x \<Rightarrow> x | None \<Rightarrow> v))"

text \<open>\<^verbatim>\<open>for (q = 0; q < TPM_MAX_ALG_PROPERTIES; q++)\<close>; the first argument is what is left to go.\<close>

fun mark_algs :: "nat \<Rightarrow> nat \<Rightarrow> u16 \<Rightarrow> tpm_alg_query_t list \<Rightarrow> ('s, tpm_alg_query_t list) op" where
  "mark_algs 0 q alg query = ret query"
| "mark_algs (Suc n) q alg query =
     andthen (array_get query q) (\<lambda>item.
     if alg_id item = TPM_ALG_NULL then ret query else
     mark_algs n (q + 1) alg (if alg_id item = alg then query[q := item\<lparr>enabled := True\<rparr>] else query))"

text \<open>The loop over the announced entries: return code, \<^verbatim>\<open>alg\<close>, \<^verbatim>\<open>parsed_count\<close> and the queries.\<close>

fun algs_loop ::
  "nat \<Rightarrow> u16 \<Rightarrow> u32 \<Rightarrow> u32 \<Rightarrow> tpm_alg_query_t list \<Rightarrow> (iter_st, int \<times> u16 \<times> u32 \<times> tpm_alg_query_t list) op"
where
  "algs_loop 0 alg properties parsed_count query = ret (TPM_SUCCESS, alg, parsed_count, query)"
| "algs_loop (Suc n) alg properties parsed_count query =
     andthen (into iter_read_u16_be alg) (\<lambda>alg.
     andthen (into iter_read_u32_be properties) (\<lambda>properties.
     andthen iter_error (\<lambda>err.
     if err \<noteq> TPM_SUCCESS then ret (err, alg, parsed_count, query) else
     andthen (mark_algs TPM_MAX_ALG_PROPERTIES 0 alg query) (\<lambda>query.
     algs_loop n alg properties (parsed_count + 1) query))))"

text \<open>
  The result is the return code, the queries and the two output variables; \<open>None\<close> stands for
  a null pointer.
\<close>

definition parse_algs ::
  "byte_order \<Rightarrow> tpm_cmd option \<Rightarrow> tpm_alg_query_t list \<Rightarrow> u32 option \<Rightarrow> u16 option \<Rightarrow>
     ('s, int \<times> tpm_alg_query_t list \<times> u32 option \<times> u16 option) op" where
  "parse_algs bo resp query parsed_count_out last_alg_out =
     (if resp = None \<or> parsed_count_out = None \<or> last_alg_out = None
      then ret (TPM_INVALID_PARAM, query, parsed_count_out, last_alg_out) else
      with_local iter_zero (
        andthen (getcap_payload_start bo resp TPM_CAP_ALGS) (\<lambda>rc.
        if rc \<noteq> TPM_SUCCESS then ret (rc, query, parsed_count_out, last_alg_out) else
        andthen (into iter_read_u32_be 0) (\<lambda>count.
        andthen (algs_loop (unat count) 0 0 0 query) (\<lambda>(err, alg, parsed_count, query).
        if err \<noteq> TPM_SUCCESS then ret (err, query, parsed_count_out, last_alg_out) else
        andthen iter_error (\<lambda>err.
        if err \<noteq> TPM_SUCCESS then ret (err, query, parsed_count_out, last_alg_out) else
        ret (TPM_SUCCESS, query, Some parsed_count, Some alg)))))))"

text \<open>A callback gets the context and returns whether to stop, with the context it leaves.\<close>

type_synonym 'c alg_cb = "u16 \<Rightarrow> u32 \<Rightarrow> 'c \<Rightarrow> bool \<times> 'c"

definition props_match :: "u32 \<Rightarrow> u32 \<Rightarrow> u32 \<Rightarrow> bool" where
  "props_match must_set_mask must_clear_mask props \<longleftrightarrow>
     props AND must_set_mask = must_set_mask \<and> props AND must_clear_mask = 0"

text \<open>Return code, whether the callback stopped the loop, context, \<^verbatim>\<open>parsed_count\<close>, \<^verbatim>\<open>*last_alg_out\<close>.\<close>

fun algs_find_loop ::
  "nat \<Rightarrow> u32 \<Rightarrow> u32 \<Rightarrow> 'c alg_cb \<Rightarrow> u16 \<Rightarrow> u32 \<Rightarrow> u32 \<Rightarrow> u16 \<Rightarrow> 'c \<Rightarrow>
     (iter_st, int \<times> bool \<times> 'c \<times> u32 \<times> u16) op" where
  "algs_find_loop 0 mset mclr cb alg props parsed_count last_alg ctx =
     ret (TPM_SUCCESS, False, ctx, parsed_count, last_alg)"
| "algs_find_loop (Suc n) mset mclr cb alg props parsed_count last_alg ctx =
     andthen (into iter_read_u16_be alg) (\<lambda>alg.
     andthen (into iter_read_u32_be props) (\<lambda>props.
     andthen iter_error (\<lambda>err.
     if err \<noteq> TPM_SUCCESS then ret (err, False, ctx, parsed_count, last_alg) else
     let (hit, ctx) = (if props_match mset mclr props then cb alg props ctx else (False, ctx)) in
     if hit then ret (TPM_SUCCESS, True, ctx, parsed_count + 1, alg) else
     algs_find_loop n mset mclr cb alg props (parsed_count + 1) alg ctx)))"

definition parse_algs_find ::
  "byte_order \<Rightarrow> tpm_cmd option \<Rightarrow> u32 \<Rightarrow> u32 \<Rightarrow> 'c alg_cb option \<Rightarrow> 'c \<Rightarrow> u32 option \<Rightarrow> u16 option \<Rightarrow>
     bool option \<Rightarrow> ('s, int \<times> 'c \<times> u32 option \<times> u16 option \<times> bool option) op" where
  "parse_algs_find bo resp must_set_mask must_clear_mask cb cb_ctx parsed_count_out last_alg_out found_out =
     (case (resp, parsed_count_out, last_alg_out, found_out, cb) of
        (Some r, Some parsed, Some lst, Some found, Some f) \<Rightarrow>
          with_local iter_zero (
            andthen (getcap_payload_start bo resp TPM_CAP_ALGS) (\<lambda>rc.
            if rc \<noteq> TPM_SUCCESS then ret (rc, cb_ctx, parsed_count_out, last_alg_out, found_out) else
            andthen (into iter_read_u32_be 0) (\<lambda>count.
            andthen (algs_find_loop (unat count) must_set_mask must_clear_mask f 0 0 0 lst cb_ctx)
              (\<lambda>(err, hit, ctx, parsed_count, lst).
            if err \<noteq> TPM_SUCCESS then ret (err, ctx, parsed_count_out, Some lst, found_out) else
            if hit then ret (TPM_SUCCESS, ctx, Some parsed_count, Some lst, Some True) else
            andthen iter_error (\<lambda>err.
            if err \<noteq> TPM_SUCCESS then ret (err, ctx, Some parsed_count, Some lst, Some False) else
            ret (TPM_SUCCESS, ctx, Some parsed_count, Some lst, Some False))))))
      | _ \<Rightarrow> ret (TPM_INVALID_PARAM, cb_ctx, parsed_count_out, last_alg_out, found_out))"

text \<open>
  \<^verbatim>\<open>memset(query[q].pcr_select, 0, 3)\<close>, then \<^verbatim>\<open>memcpy\<close> of the mask bytes \<open>sel\<close> behind
  \<^verbatim>\<open>pcr_select\<close>.
\<close>

fun mark_pcrs :: "nat \<Rightarrow> nat \<Rightarrow> u16 \<Rightarrow> byte list \<Rightarrow> tpm_pcr_bank_query_t list \<Rightarrow>
    ('s, tpm_pcr_bank_query_t list) op" where
  "mark_pcrs 0 q hash sel query = ret query"
| "mark_pcrs (Suc n) q hash sel query =
     andthen (array_get query q) (\<lambda>item.
     if bq_hash_alg item = TPM_ALG_NULL then ret query else
     mark_pcrs n (q + 1) hash sel
       (if bq_hash_alg item = hash
        then query[q := item\<lparr>bq_pcr_select := overlay (replicate (unat TPM_PCR_SELECT_SIZE) 0) 0 sel\<rparr>]
        else query))"

text \<open>The first \<open>n\<close> bytes behind a pointer.\<close>

definition bytes_at :: "byte list option \<Rightarrow> byte \<Rightarrow> ('s, byte list) op" where
  "bytes_at p n = andthen (deref p) (\<lambda>mem.
     if unat n \<le> length mem then ret (take (unat n) mem) else fail Out_Of_Bounds)"

text \<open>
  The common head of the two loops over PCR selections: hash, size and mask bytes of one
  entry, or the error code to return.
\<close>

definition read_selection ::
  "u16 \<Rightarrow> byte \<Rightarrow> byte list option \<Rightarrow> (iter_st, int \<times> u16 \<times> byte \<times> byte list option) op" where
  "read_selection hash sizeof_select pcr_select =
     andthen (into iter_read_u16_be hash) (\<lambda>hash.
     andthen (into iter_read_u8 sizeof_select) (\<lambda>sizeof_select.
     andthen iter_error (\<lambda>err.
     if err \<noteq> TPM_SUCCESS then ret (err, hash, sizeof_select, pcr_select) else
     if sizeof_select > TPM_PCR_SELECT_SIZE then ret (TPM_ERR_RESPONSE, hash, sizeof_select, pcr_select) else
     andthen (into (iter_read_ptr (ucast sizeof_select)) pcr_select) (\<lambda>pcr_select.
     andthen iter_error (\<lambda>err. ret (err, hash, sizeof_select, pcr_select))))))"

fun pcrs_loop ::
  "nat \<Rightarrow> u16 \<Rightarrow> byte \<Rightarrow> byte list option \<Rightarrow> u32 \<Rightarrow> tpm_pcr_bank_query_t list \<Rightarrow>
     (iter_st, int \<times> u16 \<times> u32 \<times> tpm_pcr_bank_query_t list) op" where
  "pcrs_loop 0 hash sizeof_select pcr_select parsed_count query = ret (TPM_SUCCESS, hash, parsed_count, query)"
| "pcrs_loop (Suc n) hash sizeof_select pcr_select parsed_count query =
     andthen (read_selection hash sizeof_select pcr_select) (\<lambda>(err, hash, sizeof_select, pcr_select).
     if err \<noteq> TPM_SUCCESS then ret (err, hash, parsed_count, query) else
     andthen (bytes_at pcr_select sizeof_select) (\<lambda>sel.
     andthen (mark_pcrs TPM_MAX_PCR_SELECTIONS 0 hash sel query) (\<lambda>query.
     pcrs_loop n hash sizeof_select pcr_select (parsed_count + 1) query)))"

definition parse_pcrs ::
  "byte_order \<Rightarrow> tpm_cmd option \<Rightarrow> tpm_pcr_bank_query_t list \<Rightarrow> u32 option \<Rightarrow> u16 option \<Rightarrow>
     ('s, int \<times> tpm_pcr_bank_query_t list \<times> u32 option \<times> u16 option) op" where
  "parse_pcrs bo resp query parsed_count_out last_hash_out =
     (if resp = None \<or> parsed_count_out = None \<or> last_hash_out = None
      then ret (TPM_INVALID_PARAM, query, parsed_count_out, last_hash_out) else
      with_local iter_zero (
        andthen (getcap_payload_start bo resp TPM_CAP_PCRS) (\<lambda>rc.
        if rc \<noteq> TPM_SUCCESS then ret (rc, query, parsed_count_out, last_hash_out) else
        andthen (into iter_read_u32_be 0) (\<lambda>count.
        andthen (pcrs_loop (unat count) 0 0 None 0 query) (\<lambda>(err, hash, parsed_count, query).
        if err \<noteq> TPM_SUCCESS then ret (err, query, parsed_count_out, last_hash_out) else
        andthen iter_error (\<lambda>err.
        if err \<noteq> TPM_SUCCESS then ret (err, query, parsed_count_out, last_hash_out) else
        ret (TPM_SUCCESS, query, Some parsed_count, Some hash)))))))"

text \<open>The callback is handed the mask bytes its two arguments \<^verbatim>\<open>pcr_select\<close>, \<^verbatim>\<open>sizeof_select\<close> designate.\<close>

type_synonym 'c pcr_cb = "u16 \<Rightarrow> byte list \<Rightarrow> 'c \<Rightarrow> bool \<times> 'c"

fun pcrs_find_loop ::
  "nat \<Rightarrow> 'c pcr_cb \<Rightarrow> u16 \<Rightarrow> byte \<Rightarrow> byte list option \<Rightarrow> u32 \<Rightarrow> u16 \<Rightarrow> 'c \<Rightarrow>
     (iter_st, int \<times> bool \<times> 'c \<times> u32 \<times> u16) op" where
  "pcrs_find_loop 0 cb hash_id sizeof_select pcr_select parsed_count last_hash ctx =
     ret (TPM_SUCCESS, False, ctx, parsed_count, last_hash)"
| "pcrs_find_loop (Suc n) cb hash_id sizeof_select pcr_select parsed_count last_hash ctx =
     andthen (read_selection hash_id sizeof_select pcr_select) (\<lambda>(err, hash_id, sizeof_select, pcr_select).
     if err \<noteq> TPM_SUCCESS then ret (err, False, ctx, parsed_count, last_hash) else
     andthen (bytes_at pcr_select sizeof_select) (\<lambda>sel.
     let (hit, ctx) = cb hash_id sel ctx in
     if hit then ret (TPM_SUCCESS, True, ctx, parsed_count + 1, hash_id) else
     pcrs_find_loop n cb hash_id sizeof_select pcr_select (parsed_count + 1) hash_id ctx))"

definition parse_pcrs_find ::
  "byte_order \<Rightarrow> tpm_cmd option \<Rightarrow> 'c pcr_cb option \<Rightarrow> 'c \<Rightarrow> u32 option \<Rightarrow> u16 option \<Rightarrow>
     bool option \<Rightarrow> ('s, int \<times> 'c \<times> u32 option \<times> u16 option \<times> bool option) op" where
  "parse_pcrs_find bo resp cb cb_ctx parsed_count_out last_hash_out found_out =
     (case (resp, parsed_count_out, last_hash_out, found_out, cb) of
        (Some r, Some parsed, Some lst, Some found, Some f) \<Rightarrow>
          with_local iter_zero (
            andthen (getcap_payload_start bo resp TPM_CAP_PCRS) (\<lambda>rc.
            if rc \<noteq> TPM_SUCCESS then ret (rc, cb_ctx, parsed_count_out, last_hash_out, found_out) else
            andthen (into iter_read_u32_be 0) (\<lambda>count.
            andthen (pcrs_find_loop (unat count) f 0 0 None 0 lst cb_ctx)
              (\<lambda>(err, hit, ctx, parsed_count, lst).
            if err \<noteq> TPM_SUCCESS then ret (err, ctx, parsed_count_out, Some lst, found_out) else
            if hit then ret (TPM_SUCCESS, ctx, Some parsed_count, Some lst, Some True) else
            andthen iter_error (\<lambda>err.
            if err \<noteq> TPM_SUCCESS then ret (err, ctx, Some parsed_count, Some lst, Some False) else
            ret (TPM_SUCCESS, ctx, Some parsed_count, Some lst, Some False))))))
      | _ \<Rightarrow> ret (TPM_INVALID_PARAM, cb_ctx, parsed_count_out, last_hash_out, found_out))"

section \<open>Decoders on byte lists\<close>

text \<open>The entries that are completely there, and whether these are all the announced ones.\<close>

fun decode_algs :: "nat \<Rightarrow> byte list \<Rightarrow> (u16 \<times> u32) list \<times> bool" where
  "decode_algs (Suc n) (a # b # c # d # e # f # bs) =
     (case decode_algs n bs of (es, ok) \<Rightarrow> ((of_be16 a b, of_be32 c d e f) # es, ok))"
| "decode_algs 0 bs = ([], True)"
| "decode_algs (Suc n) bs = ([], False)"

fun decode_pcrs :: "nat \<Rightarrow> byte list \<Rightarrow> (u16 \<times> byte list) list \<times> bool" where
  "decode_pcrs (Suc n) (a # b # k # bs) =
     (if unat k \<le> unat TPM_PCR_SELECT_SIZE \<and> unat k \<le> length bs
      then (case decode_pcrs n (drop (unat k) bs) of (es, ok) \<Rightarrow> ((of_be16 a b, take (unat k) bs) # es, ok))
      else ([], False))"
| "decode_pcrs 0 bs = ([], True)"
| "decode_pcrs (Suc n) bs = ([], False)"

text \<open>A page: the entries of a response, \<open>None\<close> when there is no such payload or no count.\<close>

definition page :: "(nat \<Rightarrow> byte list \<Rightarrow> 'e list \<times> bool) \<Rightarrow> u32 \<Rightarrow> byte_order \<Rightarrow> tpm_cmd \<Rightarrow> ('e list \<times> bool) option" where
  "page dec cap bo r =
     (case payload bo cap r of
        Some (a # b # c # d # bs) \<Rightarrow> Some (dec (unat (of_be32 a b c d)) bs)
      | _ \<Rightarrow> None)"

definition alg_page :: "byte_order \<Rightarrow> tpm_cmd \<Rightarrow> ((u16 \<times> u32) list \<times> bool) option" where
  "alg_page = page decode_algs TPM_CAP_ALGS"

definition pcr_page :: "byte_order \<Rightarrow> tpm_cmd \<Rightarrow> ((u16 \<times> byte list) list \<times> bool) option" where
  "pcr_page = page decode_pcrs TPM_CAP_PCRS"

section \<open>Reading one entry\<close>

lemma into_wp:
  assumes "wp False False (rd (Some v)) (\<lambda>r t. snd r = Some x \<and> P t) s"
  shows "wp False False (into rd v) (\<lambda>y t. y = x \<and> P t) s"
  unfolding into_def by (rule wp_seq [OF assms]) (auto simp: wp_simps split: prod.splits)

lemmas into_u8 = into_wp [where rd = iter_read_u8, OF read_u8]
lemmas into_u16 = into_wp [where rd = iter_read_u16_be, OF read_u16]
lemmas into_u32 = into_wp [where rd = iter_read_u32_be, OF read_u32]

text \<open>A read that finds too little, or comes after such a read, leaves the iterator failed.\<close>

definition short_of :: "nat \<Rightarrow> iter_st \<Rightarrow> bool" where
  "short_of n s \<longleftrightarrow> iter_inv s \<and> (\<forall>bs. iter_view s = Some bs \<longrightarrow> length bs < n)"

lemma into_short:
  assumes "short_of n s" and "n \<le> unat k + m"
  shows "wp False False (into (iter_read k dec) v) (\<lambda>_ t. short_of m t) s"
  unfolding into_def
proof (rule wp_seq [OF iter.read_law], goal_cases)
  case (2 r t)
  then show ?case using assms by (auto simp: wp_simps short_of_def split: prod.splits option.splits if_splits)
qed (use assms in \<open>simp add: short_of_def\<close>)

lemma short_of_0: "short_of 0 s \<longleftrightarrow> iter_inv s \<and> iter_view s = None"
  by (auto simp: short_of_def)

lemma error_short:
  assumes "short_of 0 s" and "\<And>t. t = s \<Longrightarrow> wp False False (k TPM_ERR_RESPONSE) Q t"
  shows "wp False False (andthen iter_error k) Q s"
  by (rule wp_seq [OF iter.status_failed]) (use assms in \<open>auto simp: short_of_0\<close>)

lemma error_ok:
  assumes "iter_inv s" and "iter_view s = Some bs" and "wp False False (k TPM_SUCCESS) Q s"
  shows "wp False False (andthen iter_error k) Q s"
  by (rule wp_seq [OF iter.status_ok [OF assms(1,2)]]) (use assms(3) in auto)

lemma alg_entry_ok:
  assumes "iter_inv s" and "iter_view s = Some (a # b # c # d # e # f # bs)"
    and "\<And>t. iter_inv t \<Longrightarrow> iter_view t = Some bs \<Longrightarrow>
      wp False False (k (of_be16 a b) (of_be32 c d e f) TPM_SUCCESS) Q t"
  shows "wp False False (andthen (into iter_read_u16_be x) (\<lambda>x. andthen (into iter_read_u32_be y) (\<lambda>y.
    andthen iter_error (k x y)))) Q s"
  by (rule wp_seq [OF into_u16 [OF assms(1,2)]], elim conjE, rule wp_seq [OF into_u32], assumption+,
      elim conjE, rule error_ok, assumption+) (use assms(3) in auto)

lemma alg_entry_short:
  assumes "short_of 6 s"
    and "\<And>x y t. short_of 0 t \<Longrightarrow> wp False False (k x y TPM_ERR_RESPONSE) Q t"
  shows "wp False False (andthen (into iter_read_u16_be x) (\<lambda>x. andthen (into iter_read_u32_be y) (\<lambda>y.
    andthen iter_error (k x y)))) Q s"
  unfolding iter_read_u16_be_def iter_read_u32_be_def
  by (rule wp_seq [OF into_short [OF assms(1), of _ 4]], simp, rule wp_seq [OF into_short [of 4 _ _ 0]],
      assumption, simp, rule error_short, assumption) (use assms(2) in auto)

section \<open>Queries up to the terminator\<close>

text \<open>What is done to every item in front of the first one with a null algorithm.\<close>

definition upto_null :: "('q \<Rightarrow> u16) \<Rightarrow> ('q \<Rightarrow> 'q) \<Rightarrow> 'q list \<Rightarrow> 'q list" where
  "upto_null key f qs =
     map f (takeWhile (\<lambda>q. key q \<noteq> TPM_ALG_NULL) qs) @ dropWhile (\<lambda>q. key q \<noteq> TPM_ALG_NULL) qs"

definition terminated :: "('q \<Rightarrow> u16) \<Rightarrow> nat \<Rightarrow> 'q list \<Rightarrow> bool" where
  "terminated key n qs \<longleftrightarrow> length (takeWhile (\<lambda>q. key q \<noteq> TPM_ALG_NULL) qs) < min n (length qs)"

definition mark_alg :: "u16 \<Rightarrow> tpm_alg_query_t list \<Rightarrow> tpm_alg_query_t list" where
  "mark_alg alg = upto_null alg_id (\<lambda>q. if alg_id q = alg then q\<lparr>enabled := True\<rparr> else q)"

definition select_mask :: "byte list \<Rightarrow> byte list" where
  "select_mask sel = overlay (replicate (unat TPM_PCR_SELECT_SIZE) 0) 0 sel"

definition mark_pcr :: "u16 \<times> byte list \<Rightarrow> tpm_pcr_bank_query_t list \<Rightarrow> tpm_pcr_bank_query_t list" where
  "mark_pcr = (\<lambda>(hash, sel). upto_null bq_hash_alg
     (\<lambda>q. if bq_hash_alg q = hash then q\<lparr>bq_pcr_select := select_mask sel\<rparr> else q))"

lemma upto_null_Cons:
  "upto_null key f (q # qs) = (if key q = TPM_ALG_NULL then q # qs else f q # upto_null key f qs)"
  by (simp add: upto_null_def)

lemma terminated_Cons:
  "terminated key (Suc n) (q # qs) \<longleftrightarrow> key q = TPM_ALG_NULL \<or> terminated key n qs"
  by (auto simp: terminated_def)

lemma terminated_0 [simp]: "\<not> terminated key 0 qs"
  by (simp add: terminated_def)

lemma terminated_Nil [simp]: "\<not> terminated key n []"
  by (simp add: terminated_def)

lemma terminated_upto_null:
  assumes "\<And>q. key (f q) = key q"
  shows "terminated key n (upto_null key f qs) \<longleftrightarrow> terminated key n qs"
proof (induction qs arbitrary: n)
  case (Cons q qs)
  then show ?case by (cases n) (auto simp: upto_null_Cons terminated_Cons assms)
qed (simp add: upto_null_def)

lemma mark_algs_wp:
  "terminated alg_id n qs \<Longrightarrow>
    mark_algs n (length pre) alg (pre @ qs) = ret (pre @ mark_alg alg qs)"
proof (induction n arbitrary: pre qs)
  case (Suc n)
  show ?case
  proof (cases qs)
    case (Cons q qs')
    with Suc.prems Suc.IH [of qs' "pre @ [if alg_id q = alg then q\<lparr>enabled := True\<rparr> else q]"]
    show ?thesis
      by (auto simp: array_get_def mark_alg_def upto_null_Cons terminated_Cons simp del: TPM_ALG_NULL_def)
  qed (use Suc.prems in simp)
qed simp

lemma mark_pcrs_wp:
  "terminated bq_hash_alg n qs \<Longrightarrow>
    mark_pcrs n (length pre) hash sel (pre @ qs) = ret (pre @ mark_pcr (hash, sel) qs)"
proof (induction n arbitrary: pre qs)
  case (Suc n)
  show ?case
  proof (cases qs)
    case (Cons q qs')
    with Suc.prems Suc.IH [of qs' "pre @ [if bq_hash_alg q = hash then q\<lparr>bq_pcr_select := select_mask sel\<rparr> else q]"]
    show ?thesis
      by (auto simp: array_get_def mark_pcr_def upto_null_Cons terminated_Cons select_mask_def
          simp del: TPM_ALG_NULL_def TPM_PCR_SELECT_SIZE_def)
  qed (use Suc.prems in simp)
qed simp

lemma mark_algs_all: "terminated alg_id n qs \<Longrightarrow> mark_algs n 0 alg qs = ret (mark_alg alg qs)"
  using mark_algs_wp [of n qs "[]"] by simp

lemma mark_pcrs_all: "terminated bq_hash_alg n qs \<Longrightarrow> mark_pcrs n 0 hash sel qs = ret (mark_pcr (hash, sel) qs)"
  using mark_pcrs_wp [of n qs "[]"] by simp

lemma terminated_mark_alg [simp]: "terminated alg_id n (mark_alg alg qs) \<longleftrightarrow> terminated alg_id n qs"
  unfolding mark_alg_def by (rule terminated_upto_null) simp

lemma terminated_mark_pcr [simp]: "terminated bq_hash_alg n (mark_pcr e qs) \<longleftrightarrow> terminated bq_hash_alg n qs"
  by (cases e) (simp add: mark_pcr_def, rule terminated_upto_null, simp)

section \<open>The loops decode\<close>

lemma decode_algs_short: "length bs < 6 \<Longrightarrow> decode_algs (Suc n) bs = ([], False)"
  by (cases "(Suc n, bs)" rule: decode_algs.cases) auto

lemma list_of_6: "\<not> length xs < 6 \<Longrightarrow> \<exists>a b c d e f ys. xs = a # b # c # d # e # f # ys"
  by (auto simp: numeral_eq_Suc Suc_le_length_iff not_less)

definition decoded :: "'e list \<times> bool \<Rightarrow> ('e \<Rightarrow> u16) \<Rightarrow> ('e \<Rightarrow> 'q \<Rightarrow> 'q) \<Rightarrow> u16 \<Rightarrow> u32 \<Rightarrow> 'q \<Rightarrow>
    int \<times> u16 \<times> u32 \<times> 'q \<Rightarrow> iter_st \<Rightarrow> bool" where
  "decoded d key upd key0 cnt query = (\<lambda>(rc, k, cnt', query') t.
     iter_inv t \<and> query' = fold upd (fst d) query \<and>
     (if snd d then rc = TPM_SUCCESS \<and> iter_view t \<noteq> None \<and> k = last (key0 # map key (fst d)) \<and>
        cnt' = cnt + of_nat (length (fst d))
      else rc = TPM_ERR_RESPONSE))"

lemma decoded_Cons:
  "decoded d key upd (key e) (cnt + 1) (upd e query) r t \<Longrightarrow>
    decoded (e # fst d, snd d) key upd k0 cnt query r t"
  by (auto simp: decoded_def split: if_splits)

lemma algs_loop_wp:
  "iter_inv s \<Longrightarrow> iter_view s = Some bs \<Longrightarrow> terminated alg_id TPM_MAX_ALG_PROPERTIES query \<Longrightarrow>
    wp False False (algs_loop n alg p cnt query)
      (decoded (decode_algs n bs) fst (\<lambda>e. mark_alg (fst e)) alg cnt query) s"
proof (induction n arbitrary: s bs alg p cnt query)
  case 0
  then show ?case by (simp add: wp_simps decoded_def)
next
  case (Suc n)
  show ?case
  proof (cases "length bs < 6")
    case True
    then have "short_of 6 s" using Suc.prems by (simp add: short_of_def)
    then show ?thesis
      unfolding algs_loop.simps
      by (rule alg_entry_short) (simp add: wp_simps decode_algs_short [OF True] decoded_def short_of_0)
  next
    case False
    then obtain a b c d e f ys where bs: "bs = a # b # c # d # e # f # ys" using list_of_6 by blast
    show ?thesis
      unfolding algs_loop.simps
    proof (rule alg_entry_ok [OF Suc.prems(1) Suc.prems(2) [unfolded bs]], goal_cases)
      case (1 t)
      have m: "terminated alg_id TPM_MAX_ALG_PROPERTIES (mark_alg (of_be16 a b) query)"
        using Suc.prems(3) by simp
      have d: "decode_algs (Suc n) bs = ((of_be16 a b, of_be32 c d e f) # fst (decode_algs n ys), snd (decode_algs n ys))"
        by (simp add: bs split: prod.split)
      have "wp False False (algs_loop n (of_be16 a b) (of_be32 c d e f) (cnt + 1) (mark_alg (of_be16 a b) query))
          (decoded (decode_algs (Suc n) bs) fst (\<lambda>e. mark_alg (fst e)) alg cnt query) t"
        unfolding d by (rule wp_mono [OF Suc.IH [OF 1 m]]) (rule decoded_Cons, simp)
      then show ?case by (simp add: mark_algs_all [OF Suc.prems(3)] del: TPM_MAX_ALG_PROPERTIES_def)
    qed
  qed
qed

text \<open>Selections: too few bytes, a mask longer than three bytes, or a complete one.\<close>

lemma decode_pcrs_short: "length bs < 3 \<Longrightarrow> decode_pcrs (Suc n) bs = ([], False)"
  by (cases "(Suc n, bs)" rule: decode_pcrs.cases) auto

lemma list_of_3: "\<not> length xs < 3 \<Longrightarrow> \<exists>a b c ys. xs = a # b # c # ys"
  by (auto simp: numeral_eq_Suc Suc_le_length_iff not_less)

lemma selection_short:
  assumes "short_of 3 s"
  shows "wp False False (read_selection h z p) (\<lambda>r t. fst r = TPM_ERR_RESPONSE \<and> iter_inv t) s"
  unfolding read_selection_def iter_read_u16_be_def iter_read_u8_def
  by (rule wp_seq [OF into_short [OF assms, of _ 1]], simp, rule wp_seq [OF into_short [of 1 _ _ 0]],
      assumption, simp, rule error_short, assumption) (simp add: wp_simps short_of_0)

lemma selection_wp:
  assumes "iter_inv s" and "iter_view s = Some (a # b # k # bs)"
  shows "wp False False (read_selection h z p) (\<lambda>r t. iter_inv t \<and>
    (if unat k \<le> unat TPM_PCR_SELECT_SIZE \<and> unat k \<le> length bs
     then (\<exists>mem. r = (TPM_SUCCESS, of_be16 a b, k, Some mem) \<and> prefix bs mem) \<and>
       iter_view t = Some (drop (unat k) bs)
     else fst r = TPM_ERR_RESPONSE)) s"
  unfolding read_selection_def
proof (rule wp_seq [OF into_u16 [OF assms]], elim conjE, rule wp_seq [OF into_u8], assumption+,
    elim conjE, rule error_ok, assumption+, goal_cases)
  case (1 x t y u)
  have k3: "TPM_PCR_SELECT_SIZE < k \<longleftrightarrow> \<not> unat k \<le> unat TPM_PCR_SELECT_SIZE"
    by (simp only: word_less_nat_alt not_le)
  have law: "wp False False (into (iter_read_ptr (ucast k)) p) (\<lambda>q v. iter_inv v \<and>
      (if unat k \<le> length bs then (\<exists>mem. q = Some mem \<and> prefix bs mem) \<and> iter_view v = Some (drop (unat k) bs)
       else iter_view v = None)) u"
    unfolding into_def iter_read_ptr_def
    by (rule wp_seq [OF iter.read_law]) (use 1 in \<open>auto simp: wp_simps split: prod.splits if_splits\<close>)
  from 1 show ?case
  proof (simp add: k3 wp_simps del: TPM_PCR_SELECT_SIZE_def, intro impI wp_mono [OF law], goal_cases)
    case (1 q v)
    show ?case
    proof (cases "unat k \<le> length bs")
      case True
      with 1 show ?thesis by (auto simp: wp_simps intro!: wp_mono [OF iter.status_ok])
    next
      case False
      with 1 show ?thesis by (auto simp: wp_simps intro!: wp_mono [OF iter.status_failed])
    qed
  qed
qed

lemma bytes_at_prefix:
  "prefix bs mem \<Longrightarrow> unat k \<le> length bs \<Longrightarrow> bytes_at (Some mem) k = ret (take (unat k) bs)"
  by (auto simp: bytes_at_def prefix_def)

text \<open>One selection, for both loops: it is there, or the loop returns an error.\<close>

lemma selection_cases:
  assumes "iter_inv s" and "iter_view s = Some bs"
    and short: "\<And>r t. decode_pcrs (Suc n) bs = ([], False) \<Longrightarrow> iter_inv t \<Longrightarrow> fst r = TPM_ERR_RESPONSE \<Longrightarrow>
      wp False False (k r) Q t"
    and full: "\<And>h z rest mem t. decode_pcrs (Suc n) bs =
        ((h, take (unat z) mem) # fst (decode_pcrs n rest), snd (decode_pcrs n rest)) \<Longrightarrow>
      (bytes_at (Some mem) z :: (iter_st, byte list) op) = ret (take (unat z) mem) \<Longrightarrow> iter_inv t \<Longrightarrow> iter_view t = Some rest \<Longrightarrow>
      wp False False (k (TPM_SUCCESS, h, z, Some mem)) Q t"
  shows "wp False False (andthen (read_selection h0 z0 p0) k) Q s"
proof (cases "length bs < 3")
  case True
  then have "short_of 3 s" using assms by (simp add: short_of_def)
  from wp_seq [OF selection_short [OF this]] show ?thesis
    using short [OF decode_pcrs_short [OF True]] by blast
next
  case False
  then obtain a b z ys where bs: "bs = a # b # z # ys" using list_of_3 by blast
  show ?thesis
  proof (rule wp_seq [OF selection_wp [OF assms(1) assms(2) [unfolded bs]]], goal_cases)
    case (1 r t)
    show ?case
    proof (cases "unat z \<le> unat TPM_PCR_SELECT_SIZE \<and> unat z \<le> length ys")
      case True
      with 1 obtain mem where r: "r = (TPM_SUCCESS, of_be16 a b, z, Some mem)" and mem: "prefix ys mem"
        and t: "iter_inv t" "iter_view t = Some (drop (unat z) ys)" by auto
      have "take (unat z) mem = take (unat z) ys" using mem True by (auto simp: prefix_def)
      moreover have "(bytes_at (Some mem) z :: (iter_st, byte list) op) = ret (take (unat z) ys)"
        using True by (intro bytes_at_prefix [OF mem]) simp
      ultimately show ?thesis
        unfolding r using True by (intro full [OF _ _ t]) (simp_all add: bs split: prod.split)
    next
      case False
      with 1 show ?thesis by (intro short) (auto simp: bs)
    qed
  qed
qed

lemma pcrs_loop_wp:
  "iter_inv s \<Longrightarrow> iter_view s = Some bs \<Longrightarrow> terminated bq_hash_alg TPM_MAX_PCR_SELECTIONS query \<Longrightarrow>
    wp False False (pcrs_loop n hash z p cnt query) (decoded (decode_pcrs n bs) fst mark_pcr hash cnt query) s"
proof (induction n arbitrary: s bs hash z p cnt query)
  case 0
  then show ?case by (simp add: wp_simps decoded_def)
next
  case (Suc n)
  show ?case
    unfolding pcrs_loop.simps
  proof (rule selection_cases [where n = n, OF Suc.prems(1,2)], goal_cases)
    case (1 r t)
    then show ?case by (auto simp: wp_simps decoded_def split: prod.splits)
  next
    case (2 h z rest mem t)
    have m: "terminated bq_hash_alg TPM_MAX_PCR_SELECTIONS (mark_pcr (h, take (unat z) mem) query)"
      using Suc.prems(3) by simp
    have "wp False False (pcrs_loop n h z (Some mem) (cnt + 1) (mark_pcr (h, take (unat z) mem) query))
        (decoded (decode_pcrs (Suc n) bs) fst mark_pcr hash cnt query) t"
      unfolding 2(1) by (rule wp_mono [OF Suc.IH [OF 2(3,4) m]]) (rule decoded_Cons, simp)
    then show ?case
      by (simp add: 2(2) mark_pcrs_all [OF Suc.prems(3)] del: TPM_MAX_PCR_SELECTIONS_def)
  qed
qed

section \<open>The callback loops visit\<close>

text \<open>Calling a callback on entries in turn until it says stop: how many were seen, and the result.\<close>

fun visit :: "('e \<Rightarrow> 'c \<Rightarrow> bool \<times> 'c) \<Rightarrow> 'e list \<Rightarrow> 'c \<Rightarrow> nat \<times> bool \<times> 'c" where
  "visit f [] c = (0, False, c)"
| "visit f (e # es) c =
     (let (hit, c) = f e c in
      if hit then (1, True, c) else (let (k, r) = visit f es c in (Suc k, r)))"

definition alg_visitor :: "u32 \<Rightarrow> u32 \<Rightarrow> 'c alg_cb \<Rightarrow> u16 \<times> u32 \<Rightarrow> 'c \<Rightarrow> bool \<times> 'c" where
  "alg_visitor mset mclr cb = (\<lambda>(alg, props) c. if props_match mset mclr props then cb alg props c else (False, c))"

definition pcr_visitor :: "'c pcr_cb \<Rightarrow> u16 \<times> byte list \<Rightarrow> 'c \<Rightarrow> bool \<times> 'c" where
  "pcr_visitor cb = (\<lambda>(hash, sel) c. cb hash sel c)"

definition visited :: "'e list \<times> bool \<Rightarrow> ('e \<Rightarrow> u16) \<Rightarrow> ('e \<Rightarrow> 'c \<Rightarrow> bool \<times> 'c) \<Rightarrow> u16 \<Rightarrow> u32 \<Rightarrow> 'c \<Rightarrow>
    int \<times> bool \<times> 'c \<times> u32 \<times> u16 \<Rightarrow> iter_st \<Rightarrow> bool" where
  "visited d key f key0 cnt c = (\<lambda>(rc, hit, c', cnt', k) t.
     (case visit f (fst d) c of (n, h, x) \<Rightarrow>
        hit = h \<and> c' = x \<and> cnt' = cnt + of_nat n \<and> k = last (key0 # map key (take n (fst d))) \<and>
        rc = (if h \<or> snd d then TPM_SUCCESS else TPM_ERR_RESPONSE) \<and>
        (\<not> h \<and> snd d \<longrightarrow> iter_inv t \<and> iter_view t \<noteq> None)))"

lemma visited_go:
  "f e c = (False, c') \<Longrightarrow> visited d key f (key e) (cnt + 1) c' r t \<Longrightarrow>
    visited (e # fst d, snd d) key f k0 cnt c r t"
  by (auto simp: visited_def split: prod.splits)

lemma visited_stop:
  "f e c = (True, c') \<Longrightarrow> visited (e # fst d, snd d) key f k0 cnt c (TPM_SUCCESS, True, c', cnt + 1, key e) t"
  by (simp add: visited_def)

lemma algs_find_loop_wp:
  "iter_inv s \<Longrightarrow> iter_view s = Some bs \<Longrightarrow>
    wp False False (algs_find_loop n mset mclr cb alg p cnt lst c)
      (visited (decode_algs n bs) fst (alg_visitor mset mclr cb) lst cnt c) s"
proof (induction n arbitrary: s bs alg p cnt lst c)
  case 0
  then show ?case by (simp add: wp_simps visited_def)
next
  case (Suc n)
  show ?case
  proof (cases "length bs < 6")
    case True
    then have "short_of 6 s" using Suc.prems by (simp add: short_of_def)
    then show ?thesis
      unfolding algs_find_loop.simps
      by (rule alg_entry_short) (simp add: wp_simps decode_algs_short [OF True] visited_def)
  next
    case False
    then obtain a b x d e f ys where bs: "bs = a # b # x # d # e # f # ys" using list_of_6 by blast
    let ?e = "(of_be16 a b, of_be32 x d e f)"
    have dec: "decode_algs (Suc n) bs = (?e # fst (decode_algs n ys), snd (decode_algs n ys))"
      by (simp add: bs split: prod.split)
    have v: "alg_visitor mset mclr cb ?e c =
        (if props_match mset mclr (of_be32 x d e f) then cb (of_be16 a b) (of_be32 x d e f) c else (False, c))"
      by (simp add: alg_visitor_def)
    obtain hit c' where hit: "alg_visitor mset mclr cb ?e c = (hit, c')" by fastforce
    show ?thesis
      unfolding algs_find_loop.simps
    proof (rule alg_entry_ok [OF Suc.prems(1) Suc.prems(2) [unfolded bs]], goal_cases)
      case (1 t)
      show ?case
        unfolding v [symmetric] hit dec Let_def prod.case
        using hit visited_stop [of "alg_visitor mset mclr cb" ?e c c' "decode_algs n ys" fst lst cnt t]
        by (auto simp: wp_simps intro!: wp_mono [OF Suc.IH [OF 1]] visited_go)
    qed
  qed
qed

lemma pcrs_find_loop_wp:
  "iter_inv s \<Longrightarrow> iter_view s = Some bs \<Longrightarrow>
    wp False False (pcrs_find_loop n cb hash z p cnt lst c)
      (visited (decode_pcrs n bs) fst (pcr_visitor cb) lst cnt c) s"
proof (induction n arbitrary: s bs hash z p cnt lst c)
  case 0
  then show ?case by (simp add: wp_simps visited_def)
next
  case (Suc n)
  show ?case
    unfolding pcrs_find_loop.simps
  proof (rule selection_cases [where n = n, OF Suc.prems], goal_cases)
    case (1 r t)
    then show ?case by (auto simp: wp_simps visited_def split: prod.splits)
  next
    case (2 h z rest mem t)
    obtain hit c' where hit: "pcr_visitor cb (h, take (unat z) mem) c = (hit, c')" by fastforce
    then have cb: "cb h (take (unat z) mem) c = (hit, c')" by (simp add: pcr_visitor_def)
    show ?case
      unfolding 2(1)
      using hit visited_stop [of "pcr_visitor cb" "(h, take (unat z) mem)" c c' "decode_pcrs n rest" fst lst cnt t]
      by (auto simp: 2(2) cb wp_simps intro!: wp_mono [OF Suc.IH [OF 2(3,4)]] visited_go)
  qed
qed

section \<open>The parsers refine the decoders\<close>

lemma into_u32_short:
  assumes "short_of 4 s"
  shows "wp False False (into iter_read_u32_be v) (\<lambda>x t. x = v \<and> short_of 0 t) s"
  unfolding iter_read_u32_be_def into_def
proof (rule wp_seq [OF read_failed], goal_cases)
  case (3 r t)
  then show ?case by (auto simp: wp_simps short_of_0 split: prod.splits)
qed (use assms in \<open>auto simp: short_of_def\<close>)

lemma list_of_4: "\<not> length xs < 4 \<Longrightarrow> \<exists>a b c d ys. xs = a # b # c # d # ys"
  by (auto simp: numeral_eq_Suc Suc_le_length_iff not_less)

text \<open>The head all four parsers share: the payload and its count.\<close>

lemma page_head:
  fixes dec :: "nat \<Rightarrow> byte list \<Rightarrow> 'e list \<times> bool"
  assumes "wf_cmd r"
    and none: "\<And>t. page dec cap bo r = None \<Longrightarrow> Q (e TPM_ERR_RESPONSE) t"
    and short: "\<And>t. page dec cap bo r = None \<Longrightarrow> short_of 0 t \<Longrightarrow> wp False False (k 0) Q t"
    and full: "\<And>n bs t. page dec cap bo r = Some (dec (unat n) bs) \<Longrightarrow> iter_inv t \<Longrightarrow> iter_view t = Some bs \<Longrightarrow>
      wp False False (k n) Q t"
  shows "wp False False (andthen (getcap_payload_start bo (Some r) cap) (\<lambda>rc.
    if rc \<noteq> TPM_SUCCESS then ret (e rc) else andthen (into iter_read_u32_be 0) k)) Q iter_zero"
proof (rule wp_seq [OF payload_start_wp [OF assms(1) iter_zero_def]], goal_cases)
  case (2 rc t)
  show ?case
  proof (cases "payload bo cap r")
    case None
    then have "page dec cap bo r = None" by (simp add: page_def)
    with 2 None none show ?thesis by (simp add: wp_simps)
  next
    case (Some bs)
    with 2 have t: "iter_inv t" "iter_view t = Some bs" and rc: "rc = TPM_SUCCESS" by simp_all
    show ?thesis
    proof (cases "length bs < 4")
      case True
      then have pg: "page dec cap bo r = None"
        using Some by (auto simp: page_def split: list.splits)
      have "short_of 4 t" using t True by (simp add: short_of_def)
      then have "wp False False (andthen (into iter_read_u32_be 0) k) Q t"
        by (rule wp_seq [OF into_u32_short]) (auto intro: short [OF pg])
      with rc show ?thesis by simp
    next
      case False
      then obtain a b c d ys where bs: "bs = a # b # c # d # ys" using list_of_4 by blast
      have pg: "page dec cap bo r = Some (dec (unat (of_be32 a b c d)) ys)"
        using Some by (simp add: page_def bs)
      have "wp False False (andthen (into iter_read_u32_be 0) k) Q t"
        by (rule wp_seq [OF into_u32 [OF t(1) t(2) [unfolded bs]]]) (auto intro: full [OF pg])
      with rc show ?thesis by simp
    qed
  qed
qed simp

text \<open>
  The result of the two parsers that answer queries: every decoded entry has been applied to
  the query list by \<open>upd\<close>; the outputs are written only when the page decodes completely.
\<close>

definition query_result ::
  "(u16 \<times> 'v \<Rightarrow> 'q \<Rightarrow> 'q) \<Rightarrow> ((u16 \<times> 'v) list \<times> bool) option \<Rightarrow> 'q \<Rightarrow> u32 \<Rightarrow> u16 \<Rightarrow>
     int \<times> 'q \<times> u32 option \<times> u16 option" where
  "query_result upd pg query c l =
     (case pg of
        Some (es, True) \<Rightarrow> (TPM_SUCCESS, fold upd es query, Some (of_nat (length es)), Some (last (0 # map fst es)))
      | Some (es, False) \<Rightarrow> (TPM_ERR_RESPONSE, fold upd es query, Some c, Some l)
      | None \<Rightarrow> (TPM_ERR_RESPONSE, query, Some c, Some l))"

definition alg_upd :: "u16 \<times> u32 \<Rightarrow> tpm_alg_query_t list \<Rightarrow> tpm_alg_query_t list" where
  "alg_upd e = mark_alg (fst e)"

lemma not_null: "(Some r = None \<or> Some c = None \<or> Some l = None) = False"
  by simp

lemma parse_algs_refines:
  assumes "wf_cmd r" and q: "terminated alg_id TPM_MAX_ALG_PROPERTIES query"
  shows "parse_algs bo (Some r) query (Some c) (Some l) = ret (query_result alg_upd (alg_page bo r) query c l)"
  unfolding parse_algs_def not_null if_False alg_page_def
proof (rule with_local_ret, rule page_head [OF assms(1), where dec = decode_algs], goal_cases)
  case (1 t)
  then show ?case by (simp add: query_result_def alg_upd_def [abs_def])
next
  case (2 t)
  then show ?case
    by (simp add: query_result_def alg_upd_def [abs_def], intro error_short) (simp_all add: wp_simps)
next
  case (3 n bs t)
  show ?case
  proof (rule wp_seq [OF algs_loop_wp [OF 3(2,3) q]], goal_cases)
    case (1 a u)
    with 3(1) show ?case
      by (cases "decode_algs (unat n) bs")
        (auto simp: query_result_def alg_upd_def [abs_def] decoded_def wp_ret split: prod.splits if_splits intro!: error_ok)
  qed
qed

lemma parse_pcrs_refines:
  assumes "wf_cmd r" and q: "terminated bq_hash_alg TPM_MAX_PCR_SELECTIONS query"
  shows "parse_pcrs bo (Some r) query (Some c) (Some l) = ret (query_result mark_pcr (pcr_page bo r) query c l)"
  unfolding parse_pcrs_def not_null if_False pcr_page_def
proof (rule with_local_ret, rule page_head [OF assms(1), where dec = decode_pcrs], goal_cases)
  case (1 t)
  then show ?case by (simp add: query_result_def)
next
  case (2 t)
  then show ?case
    by (simp add: query_result_def, intro error_short) (simp_all add: wp_simps)
next
  case (3 n bs t)
  show ?case
  proof (rule wp_seq [OF pcrs_loop_wp [OF 3(2,3) q]], goal_cases)
    case (1 a u)
    with 3(1) show ?case
      by (cases "decode_pcrs (unat n) bs")
        (auto simp: query_result_def decoded_def wp_ret split: prod.splits if_splits intro!: error_ok)
  qed
qed

text \<open>
  The callback has seen the entries in order, up to the one it stopped at; the output
  variables say how many, which was the last, and whether it stopped.
\<close>

definition found_result ::
  "('e list \<times> bool) option \<Rightarrow> ('e \<Rightarrow> u16) \<Rightarrow> ('e \<Rightarrow> 'c \<Rightarrow> bool \<times> 'c) \<Rightarrow> 'c \<Rightarrow> u16 \<Rightarrow>
     int \<times> 'c \<times> u32 option \<times> u16 option \<times> bool option \<Rightarrow> bool" where
  "found_result pg key f c l = (\<lambda>(rc, c', parsed, lst, found).
     case pg of
       None \<Rightarrow> rc = TPM_ERR_RESPONSE \<and> c' = c
     | Some (es, ok) \<Rightarrow>
         (case visit f es c of (n, hit, x) \<Rightarrow>
            c' = x \<and> lst = Some (last (l # map key (take n es))) \<and>
            rc = (if hit \<or> ok then TPM_SUCCESS else TPM_ERR_RESPONSE) \<and>
            (hit \<or> ok \<longrightarrow> parsed = Some (of_nat n) \<and> found = Some hit)))"

lemma parse_algs_find_refines:
  assumes "wf_cmd r"
  shows "\<exists>res. parse_algs_find bo (Some r) mset mclr (Some cb) ctx (Some c) (Some l) (Some fd) = ret res \<and>
    found_result (alg_page bo r) fst (alg_visitor mset mclr cb) ctx l res"
  unfolding parse_algs_find_def prod.case option.case alg_page_def
proof (rule with_local_ex, rule page_head [OF assms, where dec = decode_algs], goal_cases)
  case (1 t)
  then show ?case by (simp add: found_result_def)
next
  case (2 t)
  then show ?case
    by (simp add: found_result_def, intro error_short) (simp_all add: wp_simps)
next
  case (3 n bs t)
  show ?case
  proof (rule wp_seq [OF algs_find_loop_wp [OF 3(2,3)]], goal_cases)
    case (1 a u)
    with 3(1) show ?case
      by (cases "decode_algs (unat n) bs")
        (auto simp: found_result_def visited_def wp_ret split: prod.splits if_splits intro!: error_ok)
  qed
qed

lemma parse_pcrs_find_refines:
  assumes "wf_cmd r"
  shows "\<exists>res. parse_pcrs_find bo (Some r) (Some cb) ctx (Some c) (Some l) (Some fd) = ret res \<and>
    found_result (pcr_page bo r) fst (pcr_visitor cb) ctx l res"
  unfolding parse_pcrs_find_def prod.case option.case pcr_page_def
proof (rule with_local_ex, rule page_head [OF assms, where dec = decode_pcrs], goal_cases)
  case (1 t)
  then show ?case by (simp add: found_result_def)
next
  case (2 t)
  then show ?case
    by (simp add: found_result_def, intro error_short) (simp_all add: wp_simps)
next
  case (3 n bs t)
  show ?case
  proof (rule wp_seq [OF pcrs_find_loop_wp [OF 3(2,3)]], goal_cases)
    case (1 a u)
    with 3(1) show ?case
      by (cases "decode_pcrs (unat n) bs")
        (auto simp: found_result_def visited_def wp_ret split: prod.splits if_splits intro!: error_ok)
  qed
qed

section \<open>What the queries hold in the end\<close>

lemma upto_null_id: "upto_null key (\<lambda>q. q) qs = qs"
  by (simp add: upto_null_def)

lemma upto_null_comp:
  assumes "\<And>q. key (g q) = key q"
  shows "upto_null key f (upto_null key g qs) = upto_null key (\<lambda>q. f (g q)) qs"
  by (induction qs) (simp_all add: upto_null_Cons assms, simp add: upto_null_def)

lemma fold_upto_null:
  assumes "\<And>e q. key (g e q) = key q"
  shows "fold (\<lambda>e. upto_null key (g e)) es qs = upto_null key (fold g es) qs"
proof (induction es arbitrary: qs)
  case Nil
  then show ?case by (simp add: upto_null_id id_def)
next
  case (Cons e es)
  then show ?case by (simp add: upto_null_comp [where key = key and g = "g e", OF assms] comp_def)
qed

text \<open>A queried algorithm is enabled exactly if it was before or one of the entries names it.\<close>

lemma mark_algs_set:
  "fold alg_upd es qs =
     upto_null alg_id (\<lambda>q. q\<lparr>enabled := enabled q \<or> alg_id q \<in> fst ` set es\<rparr>) qs"
proof -
  have "fold (\<lambda>e (q :: tpm_alg_query_t). if alg_id q = fst e then q\<lparr>enabled := True\<rparr> else q) es =
      (\<lambda>q. q\<lparr>enabled := enabled q \<or> alg_id q \<in> fst ` set es\<rparr>)" for es :: "(u16 \<times> u32) list"
    by (induction es) (auto simp: fun_eq_iff)
  then show ?thesis
    unfolding alg_upd_def [abs_def] mark_alg_def by (subst fold_upto_null) simp_all
qed

text \<open>A queried bank ends up with the mask of the last entry for its hash.\<close>

definition last_mask :: "(u16 \<times> byte list) list \<Rightarrow> u16 \<Rightarrow> byte list \<Rightarrow> byte list" where
  "last_mask es hash old =
     (case map snd (filter (\<lambda>e. fst e = hash) es) of [] \<Rightarrow> old | ms \<Rightarrow> select_mask (last ms))"

lemma last_mask_Cons:
  "last_mask (e # es) h old = last_mask es h (if fst e = h then select_mask (snd e) else old)"
  by (auto simp: last_mask_def split: list.split)

lemma mark_pcrs_set:
  "fold mark_pcr es qs =
     upto_null bq_hash_alg (\<lambda>q. q\<lparr>bq_pcr_select := last_mask es (bq_hash_alg q) (bq_pcr_select q)\<rparr>) qs"
proof -
  have "fold (\<lambda>e (q :: tpm_pcr_bank_query_t). if bq_hash_alg q = fst e then q\<lparr>bq_pcr_select := select_mask (snd e)\<rparr> else q) es =
      (\<lambda>q. q\<lparr>bq_pcr_select := last_mask es (bq_hash_alg q) (bq_pcr_select q)\<rparr>)" for es
    by (induction es) (auto simp: fun_eq_iff last_mask_Cons, simp_all add: last_mask_def)
  then show ?thesis
    unfolding mark_pcr_def case_prod_unfold by (subst fold_upto_null) simp_all
qed

section \<open>Encoding and decoding\<close>

definition encode_algs :: "(u16 \<times> u32) list \<Rightarrow> byte list" where
  "encode_algs es = concat (map (\<lambda>(a, p). be16 a @ be32 p) es)"

definition encode_pcrs :: "(u16 \<times> byte list) list \<Rightarrow> byte list" where
  "encode_pcrs es = concat (map (\<lambda>(h, sel). be16 h @ [of_nat (length sel)] @ sel) es)"

lemma length_encode_algs: "length (encode_algs es) = 6 * length es"
  by (induction es) (auto simp: encode_algs_def)

lemma length_encode_pcrs: "length es \<le> length (encode_pcrs es)"
  by (induction es) (auto simp: encode_pcrs_def)

lemma decode_encode_algs: "decode_algs (length es) (encode_algs es @ rest) = (es, True)"
  by (induction es) (auto simp: encode_algs_def be16_def be32_def)

lemma decode_encode_pcrs:
  "\<forall>e \<in> set es. length (snd e) \<le> 3 \<Longrightarrow> decode_pcrs (length es) (encode_pcrs es @ rest) = (es, True)"
proof (induction es)
  case (Cons e es)
  then have "unat (of_nat (length (snd e)) :: byte) = length (snd e)"
    by (simp add: unsigned_of_nat take_bit_nat_eq_self)
  with Cons show ?case by (auto simp: encode_pcrs_def be16_def split: prod.splits)
qed (simp add: encode_pcrs_def)

text \<open>A response of the TPM: more-data flag, capability, count and entries, in a buffer.\<close>

definition cap_response :: "byte_order \<Rightarrow> bool \<Rightarrow> u32 \<Rightarrow> nat \<Rightarrow> byte list \<Rightarrow> tpm_cmd" where
  "cap_response bo more_data cap n entries =
     (let body = of_bool more_data # be32 cap @ be32 (of_nat n) @ entries in
      \<lparr>header = \<lparr>tag = htobe16 bo TPM_ST_NO_SESSIONS,
                 cmd_size = htobe32 bo (of_nat (TPM_HEADER_SIZE + length body)),
                 cmd_code = htobe32 bo TPM_RESPONSE_SUCCESS\<rparr>,
       data = body @ replicate (MAX_CMD_DATA - length body) 0\<rparr>)"

lemma wf_cap_response: "length entries \<le> 237 \<Longrightarrow> wf_cmd (cap_response bo m cap n entries)"
  by (simp add: cap_response_def wf_cmd_def Let_def)

lemma page_cap_response:
  assumes "length entries \<le> 237" and "n < 2 ^ 32"
  shows "page dec cap bo (cap_response bo m cap n entries) = Some (dec n entries)"
proof -
  have sz: "unat (be32toh bo (cmd_size (header (cap_response bo m cap n entries)))) = 19 + length entries"
    using assms(1) by (simp add: cap_response_def Let_def unsigned_of_nat take_bit_nat_eq_self
        del: of_nat_add)
  have "payload bo cap (cap_response bo m cap n entries) = Some (be32 (of_nat n) @ entries)"
  proof -
    have d: "data (cap_response bo m cap n entries) =
        (of_bool m # be32 cap) @ (be32 (of_nat n) @ entries) @ replicate (237 - length entries) 0"
      by (simp add: cap_response_def Let_def)
    have "drop 5 (take (9 + length entries) (data (cap_response bo m cap n entries))) = be32 (of_nat n) @ entries"
      unfolding d drop_take by simp
    moreover have "take 4 (drop 1 (data (cap_response bo m cap n entries))) = be32 cap"
      unfolding d by simp
    ultimately show ?thesis
      using assms(1) unfolding payload_def sz Let_def by simp
  qed
  moreover have "be32 (of_nat n) @ entries =
      be32 (of_nat n) ! 0 # be32 (of_nat n) ! 1 # be32 (of_nat n) ! 2 # be32 (of_nat n) ! 3 # entries"
    by (subst (1) be32_nths) simp
  moreover have "unat (of_be32 (be32 (of_nat n) ! 0) (be32 (of_nat n) ! 1) (be32 (of_nat n) ! 2) (be32 (of_nat n) ! 3)) = n"
    using assms(2) by (simp add: unsigned_of_nat take_bit_nat_eq_self del: One_nat_def)
  ultimately show ?thesis unfolding page_def by (simp del: One_nat_def)
qed

end
