(* ===== verification/TPM_Cmds.thy ===== *)
theory TPM_Cmds
  imports TPM_Interface TPM_Builder TPM_Parse
begin

unbundle bit_operations_syntax

text \<open>
  The commands of \<^verbatim>\<open>src/tpm2_cmds.c\<close> that start the TPM and work on its registers (lines 601
  to 922): \<^verbatim>\<open>tpm_startup\<close>, \<^verbatim>\<open>tpm_pcr_extend\<close>, \<^verbatim>\<open>tpm_pcr_read_single\<close> and
  \<^verbatim>\<open>tpm_pcr_allocate_auth_password\<close>. Pointer arguments are options, \<open>None\<close> for null; the
  arrays behind them are lists, and an access outside them is a fault.
\<close>

section \<open>Building a command\<close>

text \<open>
  \<^verbatim>\<open>tpm_cmd_init\<close> on a builder of its own, the calls \<open>adds\<close>, \<^verbatim>\<open>tpm_builder_finalize\<close>: the final
  error state and the command.
\<close>

definition build_cmd ::
  "byte_order \<Rightarrow> u16 \<Rightarrow> u32 \<Rightarrow> (tpm_cmd_builder_t, unit) op \<Rightarrow> ('s, int \<times> tpm_cmd) op" where
  "build_cmd bo tg code adds =
     with_local (tpm_cmd_init bo tg code) (
       andthen adds (\<lambda>_. andthen tpm_builder_finalize (\<lambda>rc. andthen get_state (\<lambda>b. ret (rc, b_cmd b)))))"

section \<open>The commands\<close>

definition tpm_startup :: "byte_order \<Rightarrow> tpm_chip_data option \<Rightarrow> u16 \<Rightarrow> ('p tpm_lib, int) op" where
  "tpm_startup bo chip_data mode =
     andthen (build_cmd bo TPM_ST_NO_SESSIONS TPM_CMD_STARTUP
       (each (add_field bo) [(ucast mode, 2)])) (\<lambda>(rc, startup_cmd).
     if rc < 0 then ret rc else
     andthen (tpm_xfer bo chip_data startup_cmd zero_cmd) (\<lambda>(rc, startup_response).
     if rc < 0 then ret rc else
     let tpm_rc = be32toh bo (cmd_code (header startup_response)) in
     if tpm_rc = TPM_RC_INITIALIZE then ret TPM_ERR_ALREADY_INIT
     else if tpm_rc \<noteq> TPM_RESPONSE_SUCCESS then ret TPM_ERR_RESPONSE
     else ret TPM_SUCCESS))"

definition tpm_pcr_extend ::
  "byte_order \<Rightarrow> tpm_chip_data option \<Rightarrow> u32 \<Rightarrow> u16 \<Rightarrow> byte list option \<Rightarrow> u32 \<Rightarrow> ('p tpm_lib, int) op" where
  "tpm_pcr_extend bo chip_data index algorithm digest digest_len =
     (case digest of
        None \<Rightarrow> ret TPM_INVALID_PARAM
      | Some dig \<Rightarrow>
          andthen (build_cmd bo TPM_ST_SESSIONS TPM_CMD_PCR_EXTEND
            (andthen (each (add_field bo)
               [(index, 4), (TPM_MIN_AUTH_SIZE, 4), (TPM_RS_PW, 4), (TPM_ZERO_NONCE_SIZE, 2),
                (TPM_ATTRIBUTES_DISABLE, 1), (TPM_ZERO_HMAC_SIZE, 2), (TPM_SINGLE_HASH_COUNT, 4),
                (ucast algorithm, 2)])
             (\<lambda>_. add_bytes bo dig 0 (unat digest_len)))) (\<lambda>(rc, pcr_extend_cmd).
          if rc < 0 then ret rc else
          andthen (tpm_xfer bo chip_data pcr_extend_cmd zero_cmd) (\<lambda>(rc, pcr_extend_response).
          if rc < 0 then ret rc else
          let tpm_rc = be32toh bo (cmd_code (header pcr_extend_response)) in
          if tpm_rc \<noteq> TPM_RESPONSE_SUCCESS then ret TPM_ERR_RESPONSE
          else ret TPM_SUCCESS)))"

text \<open>
  \<^verbatim>\<open>struct tpm_pcr_single_read_res\<close>, packed: 20 bytes in front of the digest, the last two of
  them its size; 68 in all.
\<close>

definition read_res_digest_offset :: nat where
  [simp]: "read_res_digest_offset = 20"

definition sizeof_read_res :: nat where
  [simp]: "sizeof_read_res = read_res_digest_offset + MAX_DIGEST_SIZE"

text \<open>
  What is done with the response: the digest to copy, or an error code. The packed copy
  \<^verbatim>\<open>tpm_read_response\<close> is the first 68 bytes of the data.
\<close>

definition read_single_digest ::
  "byte_order \<Rightarrow> tpm_cmd \<Rightarrow> u64 \<Rightarrow> int + byte list" where
  "read_single_digest bo pcr_read_res pcr_digest_read_len =
     (let tpm_rc = be32toh bo (cmd_code (header pcr_read_res)) in
      if tpm_rc \<noteq> TPM_RESPONSE_SUCCESS then Inl TPM_ERR_RESPONSE else
      let data_size = unat (be32toh bo (cmd_size (header pcr_read_res)) - of_nat TPM_HEADER_SIZE) in
      if data_size > sizeof_read_res \<or> data_size < read_res_digest_offset then Inl TPM_ERR_RESPONSE else
      let tpm_read_response = take sizeof_read_res (data pcr_read_res);
          digest_len = be16toh bo (of_mem16 bo (tpm_read_response ! 18) (tpm_read_response ! 19)) in
      if unat digest_len > MAX_DIGEST_SIZE \<or> unat digest_len > unat pcr_digest_read_len
      then Inl TPM_INVALID_PARAM else
      if read_res_digest_offset + unat digest_len > data_size then Inl TPM_ERR_RESPONSE else
      Inr (take (unat digest_len) (drop read_res_digest_offset tpm_read_response)))"

text \<open>
  The output buffer is returned with the code. \<open>junk\<close> is the content of the local
  \<^verbatim>\<open>pcr_read_res\<close>, which the code does not initialise.
\<close>

definition tpm_pcr_read_single ::
  "byte_order \<Rightarrow> tpm_cmd \<Rightarrow> tpm_chip_data option \<Rightarrow> u32 \<Rightarrow> u16 \<Rightarrow> byte list option \<Rightarrow> u64 \<Rightarrow>
     ('p tpm_lib, int \<times> byte list option) op" where
  "tpm_pcr_read_single bo junk chip_data index algorithm pcr_digest_read pcr_digest_read_len =
     (if index \<ge> ucast TPM_PCR_SELECT_SIZE * 8 then ret (TPM_INVALID_PARAM, pcr_digest_read) else
      let pcr_bitmask = push_bit (unat index) 1 :: u32 in
      case pcr_digest_read of
        None \<Rightarrow> ret (TPM_INVALID_PARAM, pcr_digest_read)
      | Some out \<Rightarrow>
          if unat pcr_digest_read_len > length out then fail Out_Of_Bounds else
          let out = overlay out 0 (replicate (unat pcr_digest_read_len) 0) in
          andthen (build_cmd bo TPM_ST_NO_SESSIONS TPM_CMD_PCR_READ
            (each (add_field bo)
              [(1, 4), (ucast algorithm, 2), (ucast TPM_PCR_SELECT_SIZE, 1),
               (pcr_bitmask AND 0xFF, 1), (drop_bit 8 pcr_bitmask AND 0xFF, 1),
               (drop_bit 16 pcr_bitmask AND 0xFF, 1)])) (\<lambda>(rc, pcr_read_cmd).
          if rc < 0 then ret (rc, Some out) else
          andthen (tpm_xfer bo chip_data pcr_read_cmd junk) (\<lambda>(rc, pcr_read_res).
          if rc < 0 then ret (rc, Some out) else
          case read_single_digest bo pcr_read_res pcr_digest_read_len of
            Inl err \<Rightarrow> ret (err, Some out)
          | Inr digest \<Rightarrow> ret (TPM_SUCCESS, Some (overlay out 0 digest)))))"

section \<open>Allocating PCR banks\<close>

record tpm_pcr_allocate_bank_t =
  ab_hash_alg :: u16
  ab_pcr_select :: "byte list"

text \<open>\<^verbatim>\<open>for (i = 0; i < TPM_MAX_PCR_SELECTIONS; i++)\<close>: the number of banks before the null one.\<close>

fun count_banks :: "nat \<Rightarrow> nat \<Rightarrow> tpm_pcr_allocate_bank_t list \<Rightarrow> ('s, nat) op" where
  "count_banks 0 i banks = ret i"
| "count_banks (Suc n) i banks =
     andthen (array_get banks i) (\<lambda>b.
     if ab_hash_alg b = TPM_ALG_NULL then ret i else count_banks n (i + 1) banks)"

fun add_banks :: "byte_order \<Rightarrow> tpm_pcr_allocate_bank_t list \<Rightarrow> nat \<Rightarrow> nat \<Rightarrow> (tpm_cmd_builder_t, unit) op" where
  "add_banks bo banks i 0 = ret ()"
| "add_banks bo banks i (Suc n) =
     andthen (array_get banks i) (\<lambda>b.
     andthen (each (add_field bo) [(ucast (ab_hash_alg b), 2), (ucast TPM_PCR_SELECT_SIZE, 1)]) (\<lambda>_.
     andthen (add_bytes bo (ab_pcr_select b) 0 (unat TPM_PCR_SELECT_SIZE)) (\<lambda>_.
     add_banks bo banks (i + 1) n)))"

definition add_allocate_fields ::
  "byte_order \<Rightarrow> byte list \<Rightarrow> u16 \<Rightarrow> tpm_pcr_allocate_bank_t list \<Rightarrow> nat \<Rightarrow> (tpm_cmd_builder_t, unit) op" where
  "add_allocate_fields bo password password_len banks count =
     andthen (each (add_field bo)
       [(TPM_RH_PLATFORM, 4), (TPM_MIN_AUTH_SIZE + ucast password_len, 4), (TPM_RS_PW, 4),
        (TPM_ZERO_NONCE_SIZE, 2), (TPM_ATTRIBUTES_DISABLE, 1), (ucast password_len, 2)]) (\<lambda>_.
     andthen (add_bytes bo password 0 (unat password_len)) (\<lambda>_.
     andthen (each (add_field bo) [(of_nat count, 4)]) (\<lambda>_.
     add_banks bo banks 0 count)))"

text \<open>
  The four output variables are returned with the code. \<open>read_var\<close> is a call of a read
  function with a pointer to a variable, its return code ignored.
\<close>

definition read_var :: "('a option \<Rightarrow> (iter_st, int \<times> 'a option) op) \<Rightarrow> 'a option \<Rightarrow> (iter_st, 'a option) op" where
  "read_var rd v = andthen (rd v) (\<lambda>(_, out). ret out)"

definition allocate_response ::
  "byte_order \<Rightarrow> tpm_cmd \<Rightarrow> bool option \<Rightarrow> u32 option \<Rightarrow> u32 option \<Rightarrow> u32 option \<Rightarrow>
     ('s, int \<times> bool option \<times> u32 option \<times> u32 option \<times> u32 option) op" where
  "allocate_response bo resp out_success out_max_pcr out_size_needed out_size_available =
     (if be16toh bo (tag (header resp)) \<noteq> TPM_ST_SESSIONS
      then ret (TPM_ERR_RESPONSE, out_success, out_max_pcr, out_size_needed, out_size_available) else
      if be32toh bo (cmd_code (header resp)) \<noteq> TPM_RESPONSE_SUCCESS
      then ret (TPM_ERR_RESPONSE, out_success, out_max_pcr, out_size_needed, out_size_available) else
      let resp_size = be32toh bo (cmd_size (header resp)) in
      if unat resp_size < TPM_HEADER_SIZE + 17 \<or> unat resp_size > sizeof_tpm_cmd
      then ret (TPM_ERR_RESPONSE, out_success, out_max_pcr, out_size_needed, out_size_available) else
      with_local (Some \<lparr>ptr = Some (data resp), remain = ucast (resp_size - of_nat TPM_HEADER_SIZE),
                        error_state = 0\<rparr>) (
        andthen (read_var iter_read_u32_be (Some 0)) (\<lambda>param_size.
        andthen (read_var iter_read_u8 (Some 0)) (\<lambda>alloc_success.
        andthen (read_var iter_read_u32_be out_max_pcr) (\<lambda>out_max_pcr.
        andthen (read_var iter_read_u32_be out_size_needed) (\<lambda>out_size_needed.
        andthen (read_var iter_read_u32_be out_size_available) (\<lambda>out_size_available.
        andthen iter_error (\<lambda>err.
        if err \<noteq> TPM_SUCCESS
        then ret (err, out_success, out_max_pcr, out_size_needed, out_size_available)
        else ret (TPM_SUCCESS, Some (alloc_success \<noteq> Some 0), out_max_pcr, out_size_needed,
                  out_size_available)))))))))"

definition tpm_pcr_allocate_auth_password ::
  "byte_order \<Rightarrow> tpm_chip_data option \<Rightarrow> byte list option \<Rightarrow> u16 \<Rightarrow> tpm_pcr_allocate_bank_t list option \<Rightarrow>
     bool option \<Rightarrow> u32 option \<Rightarrow> u32 option \<Rightarrow> u32 option \<Rightarrow>
     ('p tpm_lib, int \<times> bool option \<times> u32 option \<times> u32 option \<times> u32 option) op" where
  "tpm_pcr_allocate_auth_password bo chip password password_len banks out_success out_max_pcr
       out_size_needed out_size_available =
     (let outs = (\<lambda>rc. ret (rc, out_success, out_max_pcr, out_size_needed, out_size_available)) in
      if chip = None \<or> banks = None \<or> out_success = None \<or> out_max_pcr = None \<or>
         out_size_needed = None \<or> out_size_available = None then outs TPM_INVALID_PARAM else
      if password_len > 0 \<and> password = None then outs TPM_INVALID_PARAM else
      andthen (deref banks) (\<lambda>bs.
      andthen (count_banks TPM_MAX_PCR_SELECTIONS 0 bs) (\<lambda>count.
      if count = 0 then outs TPM_INVALID_PARAM else
      if count \<ge> TPM_MAX_PCR_SELECTIONS then outs TPM_INVALID_PARAM else
      andthen (build_cmd bo TPM_ST_SESSIONS TPM_CMD_PCR_ALLOCATE
        (add_allocate_fields bo (case password of None \<Rightarrow> [] | Some pw \<Rightarrow> pw) password_len bs count))
        (\<lambda>(rc, cmd).
      if rc < 0 then outs rc else
      andthen (tpm_xfer bo chip cmd zero_cmd) (\<lambda>(rc, resp).
      if rc < 0 then outs rc else
      allocate_response bo resp out_success out_max_pcr out_size_needed out_size_available)))))"

section \<open>Commands on the wire\<close>

text \<open>
  \<open>attempted\<close>: the writes made so far begin the transmission of the bytes \<open>w\<close>. \<open>answered\<close>: the
  bytes \<open>w\<close> have been transmitted completely, then the header \<open>hs\<close> and the data \<open>ds\<close> have been
  read; \<open>response\<close> is the buffer they leave.
\<close>

definition script :: "u16 \<Rightarrow> byte list \<Rightarrow> (u16 \<times> byte) list" where
  "script base w = map (Pair (fifo_addr base)) w @ [(status_addr base, TPM_STAT_GO)]"

definition attempted :: "u16 \<Rightarrow> byte list \<Rightarrow> reg_op list \<Rightarrow> bool" where
  "attempted base w tr \<longleftrightarrow> (\<exists>pre \<in> ready_writes base. prefix (reg_writes tr) (pre @ script base w))"

definition answered :: "u16 \<Rightarrow> byte list \<Rightarrow> byte list \<Rightarrow> byte list \<Rightarrow> reg_op list \<Rightarrow> bool" where
  "answered base w hs ds tr \<longleftrightarrow>
     (\<exists>out inp. tr = out @ inp \<and> (\<exists>pre \<in> ready_writes base. reg_writes out = pre @ script base w) \<and>
        reg_writes inp = [] \<and> reg_reads (fifo_addr base) inp = hs @ ds) \<and>
     length hs = TPM_HEADER_SIZE \<and> announced hs \<le> sizeof_tpm_cmd \<and>
     announced hs \<le> TPM_HEADER_SIZE + length ds \<and> length ds \<le> MAX_CMD_DATA"

definition response :: "byte_order \<Rightarrow> tpm_cmd \<Rightarrow> byte list \<Rightarrow> byte list \<Rightarrow> tpm_cmd" where
  "response bo buf hs ds = \<lparr>header = hdr_of_bytes bo hs, data = overlay (data buf) 0 ds\<rparr>"

lemma attempted_Nil [simp]: "attempted base w []"
  by (auto simp: attempted_def ready_writes_def)

lemma answered_attempted: "answered base w hs ds tr \<Longrightarrow> attempted base w tr"
  by (auto simp: answered_def attempted_def)

lemma wf_response: "wf_cmd buf \<Longrightarrow> length ds \<le> MAX_CMD_DATA \<Longrightarrow> wf_cmd (response bo buf hs ds)"
  by (simp add: response_def wf_cmd_def)

lemma send_script_script: "send_script bo base cmd = script base (cmd_bytes bo cmd)"
  by (simp add: send_script_def script_def)

text \<open>An exchange in these terms.\<close>

lemma exchanged_cases:
  assumes "exchanged bo base cmd buf (rc, resp) tr" and "wf_cmd buf"
  obtains "rc < 0" and "io_code rc \<or> rc = TPM_INVALID_PARAM" and "attempted base (cmd_bytes bo cmd) tr"
  | hs ds where "rc = 0" and "answered base (cmd_bytes bo cmd) hs ds tr" and "resp = response bo buf hs ds"
proof (cases "rc = 0")
  case True
  with assms(1) obtain out inp rc' hs ds where tr: "tr = out @ inp" and out: "sent bo base cmd 0 out"
    and inp: "reg_writes inp = []" "reg_reads (fifo_addr base) inp = hs @ ds"
    and got: "got_response bo buf rc' resp hs ds" by (auto simp: exchanged_def)
  obtain pre where "pre \<in> ready_writes base" "reg_writes out = pre @ script base (cmd_bytes bo cmd)"
    using out by (auto simp: sent_def writes_upto_def send_script_script)
  with tr inp have "\<exists>out inp. tr = out @ inp \<and>
      (\<exists>pre \<in> ready_writes base. reg_writes out = pre @ script base (cmd_bytes bo cmd)) \<and>
      reg_writes inp = [] \<and> reg_reads (fifo_addr base) inp = hs @ ds" by blast
  moreover have "resp = response bo buf hs ds" using got by (simp add: got_response_def response_def)
  moreover have "length hs = TPM_HEADER_SIZE" "announced hs \<le> sizeof_tpm_cmd"
    "announced hs \<le> TPM_HEADER_SIZE + length ds" "length ds \<le> MAX_CMD_DATA"
    using got assms(2) by (auto simp: got_response_def wf_cmd_def split: if_splits)
  ultimately show ?thesis using that(2) [of hs ds] True by (simp only: answered_def simp_thms)
next
  case False
  with assms have "io_code rc \<or> rc = TPM_INVALID_PARAM" "attempted base (cmd_bytes bo cmd) tr"
    by (auto simp: exchanged_def attempted_def send_script_script)
  with that(1) False show ?thesis using io_code_nonpos by auto
qed

lemma build_cmd_eq:
  assumes "wp False False adds (\<lambda>_. built bo tg code bs) (tpm_cmd_init bo tg code)"
  shows "\<exists>b. build_cmd bo tg code adds = ret (b_error_state b, b_cmd b) \<and> built bo tg code bs b"
proof -
  have "wp False False (andthen adds (\<lambda>_. andthen tpm_builder_finalize (\<lambda>rc. andthen get_state (\<lambda>b. ret (rc, b_cmd b)))))
      (\<lambda>a _. \<exists>b. a = (b_error_state b, b_cmd b) \<and> built bo tg code bs b) (tpm_cmd_init bo tg code)"
    by (rule wp_seq [OF assms]) (auto simp: tpm_builder_finalize_def wp_simps)
  from with_local_ex [OF this] show ?thesis unfolding build_cmd_def by blast
qed

text \<open>The frame of every command: build it, exchange it, look at the response.\<close>

lemma traced_command:
  fixes k :: "tpm_cmd \<Rightarrow> ('p tpm_lib, 'r) op"
  assumes base: "base = LOCALITY_START_ADDRESS (locality chip)" and "wf_cmd buf"
    and adds: "wp False False adds (\<lambda>_. built bo tg code bs) (tpm_cmd_init bo tg code)"
    and fails: "\<And>rc tr. rc < 0 \<Longrightarrow> io_code rc \<or> rc = TPM_INVALID_PARAM \<Longrightarrow> attempted base (wire tg code bs) tr \<Longrightarrow>
      Q (e rc) tr"
    and fails2: "\<And>rc resp tr. rc < 0 \<Longrightarrow> io_code rc \<or> rc = TPM_INVALID_PARAM \<Longrightarrow>
      attempted base (wire tg code bs) tr \<Longrightarrow> Q (e2 rc resp) tr"
    and works: "\<And>hs ds tr. answered base (wire tg code bs) hs ds tr \<Longrightarrow>
      traced (k (response bo buf hs ds)) (\<lambda>b tr'. Q b (tr @ tr'))"
  shows "traced (andthen (build_cmd bo tg code adds) (\<lambda>(rc, cmd).
     if rc < 0 then ret (e rc) else
     andthen (tpm_xfer bo (Some chip) cmd buf) (\<lambda>(rc, resp).
     if rc < 0 then ret (e2 rc resp) else k resp))) Q"
proof -
  obtain b where build: "(build_cmd bo tg code adds :: ('p tpm_lib, int \<times> tpm_cmd) op) =
      ret (b_error_state b, b_cmd b)" and b: "built bo tg code bs b"
    using build_cmd_eq [OF adds] by blast
  show ?thesis
  proof (cases "b_error_state b = 0")
    case True
    then have w: "cmd_bytes bo (b_cmd b) = wire tg code bs" using b by (auto simp: built_def split: if_splits)
    show ?thesis
      unfolding build andthen_ret prod.case True
    proof (simp, rule traced_andthen [OF traced_xfer [OF base]], goal_cases)
      case (1 a tr)
      obtain rc resp where a: "a = (rc, resp)" by (cases a)
      from 1 [unfolded a] assms(2) show ?case
        by (cases rule: exchanged_cases) (auto simp: a w intro: fails2 works)
    qed
  next
    case False
    then have "b_error_state b = TPM_INVALID_PARAM" using b by (auto simp: built_def split: if_splits)
    with fails [of TPM_INVALID_PARAM "[]"] show ?thesis by (auto simp: build)
  qed
qed

text \<open>The fields of each command fit or they do not; either way the builder returns.\<close>

lemma byte_fields: "concat (map field_bytes (map (\<lambda>y. (ucast y, 1)) ys)) = ys"
  by (induction ys) (auto simp: field_bytes_def)

lemma valid_byte_fields: "\<forall>x \<in> set (map (\<lambda>y. (ucast y, 1)) ys). valid_field x"
  by (auto simp: valid_field_def)

lemma add_bytes_prefix:
  "n \<le> length ys \<Longrightarrow> add_bytes bo ys 0 n = each (add_field bo) (map (\<lambda>y. (ucast y, 1)) (take n ys))"
  using add_bytes_each [of 0 n ys bo] by simp

lemma build_fields_then_bytes:
  assumes "\<forall>x \<in> set xs. valid_field x" and "n \<le> length ys"
  shows "wp False False (andthen (each (add_field bo) xs) (\<lambda>_. add_bytes bo ys 0 n))
    (\<lambda>_. built bo tg code (concat (map field_bytes xs) @ take n ys)) (tpm_cmd_init bo tg code)"
  using build_fields [of "xs @ map (\<lambda>y. (ucast y, 1)) (take n ys)" bo tg code] assms
    byte_fields [of "take n ys"] valid_byte_fields [of "take n ys"]
  by (auto simp: add_bytes_prefix each_append simp del: map_map)

section \<open>What each command does\<close>

text \<open>
  The outcome of a command that transmits \<open>w\<close> and receives into \<open>buf\<close>. A command longer than the
  buffer is refused without any access to the TPM. Otherwise there is exactly one exchange, of
  a command with the bytes \<open>w\<close>: if it has failed, the transmission is a prefix of the complete
  one and the result is \<open>e\<close> of the code of the exchange; if it has succeeded, the TPM has
  answered and the result is \<open>f\<close> of the header and data bytes of the answer.
\<close>

definition outcome ::
  "byte_order \<Rightarrow> tpm_chip_data \<Rightarrow> tpm_cmd \<Rightarrow> byte list \<Rightarrow> (byte list \<Rightarrow> byte list \<Rightarrow> 'r) \<Rightarrow> (int \<Rightarrow> 'r) \<Rightarrow>
     'p tpm_lib \<Rightarrow> 'r \<Rightarrow> 'p tpm_lib \<Rightarrow> bool" where
  "outcome bo chip buf w f e s r t \<longleftrightarrow>
     (if MAX_SIZE_CMDBUF < length w then t = s \<and> r = e TPM_INVALID_PARAM
      else \<exists>cmd rc resp tr. cmd_bytes bo cmd = w \<and>
        tpm_xfer bo (Some chip) cmd buf s = Some (Inr ((rc, resp), t)) \<and> reg_run s tr t \<and>
        (if rc < 0
         then (rc = TPM_INVALID_PARAM \<or> rc = TPM_ERR_TIMEOUT \<or> rc = TPM_ERR_TRANSFER) \<and>
           attempted (LOCALITY_START_ADDRESS (locality chip)) w tr \<and> r = e rc
         else \<exists>hs ds. answered (LOCALITY_START_ADDRESS (locality chip)) w hs ds tr \<and>
           resp = response bo buf hs ds \<and> r = f hs ds))"

lemma command_outcome:
  fixes k :: "tpm_cmd \<Rightarrow> ('p tpm_lib, 'r) op"
  assumes "wf_cmd buf" and adds: "wp False False adds (\<lambda>_. built bo tg code bs) (tpm_cmd_init bo tg code)"
    and works: "\<And>hs ds. announced hs \<le> TPM_HEADER_SIZE + length ds \<Longrightarrow> length ds \<le> MAX_CMD_DATA \<Longrightarrow>
      k (response bo buf hs ds) = ret (f hs ds)"
  shows "wp True True (andthen (build_cmd bo tg code adds) (\<lambda>(rc, cmd).
     if rc < 0 then ret (e rc) else
     andthen (tpm_xfer bo (Some chip) cmd buf) (\<lambda>(rc, resp).
     if rc < 0 then ret (e rc) else k resp))) (outcome bo chip buf (wire tg code bs) f e s) s"
proof -
  obtain b where build: "(build_cmd bo tg code adds :: ('p tpm_lib, int \<times> tpm_cmd) op) =
      ret (b_error_state b, b_cmd b)" and b: "built bo tg code bs b"
    using build_cmd_eq [OF adds] by blast
  have len: "length (wire tg code bs) = TPM_HEADER_SIZE + length bs" by (simp add: wire_def)
  show ?thesis
  proof (cases "MAX_SIZE_CMDBUF < length (wire tg code bs)")
    case True
    with b show ?thesis by (simp add: build built_def len wp_ret outcome_def)
  next
    case False
    then have ok: "b_error_state b = 0" and w: "cmd_bytes bo (b_cmd b) = wire tg code bs"
      using b by (simp_all add: built_def len)
    have "outcome bo chip buf (wire tg code bs) f e s r t"
      if run: "tpm_xfer bo (Some chip) (b_cmd b) buf s = Some (Inr ((rc, resp), u))"
        and rest: "(if rc < 0 then ret (e rc) else k resp) u = Some (Inr (r, t))" for rc resp u r t
    proof -
      obtain tr where tr: "reg_run s tr u"
        and ex: "exchanged bo (LOCALITY_START_ADDRESS (locality chip)) (b_cmd b) buf (rc, resp) tr"
        using tracedD [OF traced_xfer [OF refl] run] by blast
      from ex assms(1) show ?thesis
      proof (cases rule: exchanged_cases)
        case 1
        with False run rest tr w show ?thesis
          by (auto simp: outcome_def ret_def io_code_def simp del: MAX_SIZE_CMDBUF_def)
      next
        case (2 hs ds)
        then have "k resp = ret (f hs ds)" by (simp add: works answered_def)
        with 2 False run rest tr w show ?thesis
          unfolding outcome_def ret_def by (fastforce simp del: MAX_SIZE_CMDBUF_def)
      qed
    qed
    then show ?thesis
      unfolding build andthen_ret prod.case ok
      by (intro wp_partialI) (auto simp: andthen_eq_Some_Inr)
  qed
qed

definition response_code :: "byte list \<Rightarrow> u32" where
  "response_code hs = of_be32 (hs ! 6) (hs ! 7) (hs ! 8) (hs ! 9)"

definition response_tag :: "byte list \<Rightarrow> u16" where
  "response_tag hs = of_be16 (hs ! 0) (hs ! 1)"

lemma response_simps [simp]:
  "be32toh bo (cmd_code (header (response bo buf hs ds))) = response_code hs"
  "be16toh bo (tag (header (response bo buf hs ds))) = response_tag hs"
  "be32toh bo (cmd_size (header (response bo buf hs ds))) = of_be32 (hs ! 2) (hs ! 3) (hs ! 4) (hs ! 5)"
  by (simp_all add: response_def hdr_of_bytes_def response_code_def response_tag_def)

definition startup_code :: "byte list \<Rightarrow> byte list \<Rightarrow> int" where
  "startup_code hs ds =
     (if response_code hs = TPM_RC_INITIALIZE then TPM_ERR_ALREADY_INIT
      else if response_code hs = TPM_RESPONSE_SUCCESS then TPM_SUCCESS else TPM_ERR_RESPONSE)"

definition extend_code :: "byte list \<Rightarrow> byte list \<Rightarrow> int" where
  "extend_code hs ds = (if response_code hs = TPM_RESPONSE_SUCCESS then TPM_SUCCESS else TPM_ERR_RESPONSE)"

lemma startup_adds:
  "wp False False (each (add_field bo) [(ucast mode, 2)]) (\<lambda>_. built bo tg code (be16 mode)) (tpm_cmd_init bo tg code)"
  using build_fields [of "[(ucast mode, 2)]" bo tg code] by (simp add: valid_field_def field_bytes_def)

lemma startup_outcome:
  "wp True True (tpm_startup bo (Some chip) mode)
    (outcome bo chip zero_cmd (wire TPM_ST_NO_SESSIONS TPM_CMD_STARTUP (be16 mode)) startup_code (\<lambda>rc. rc) s) s"
  unfolding tpm_startup_def
  by (rule command_outcome [OF wf_zero_cmd startup_adds]) (simp add: startup_code_def Let_def)

definition extend_bytes :: "u32 \<Rightarrow> u16 \<Rightarrow> byte list \<Rightarrow> byte list" where
  "extend_bytes index algorithm digest =
     be32 index @ be32 9 @ be32 0x40000009 @ be16 0 @ [0] @ be16 0 @ be32 1 @ be16 algorithm @ digest"

lemma extend_adds:
  assumes "unat n \<le> length dig"
  shows "wp False False (andthen (each (add_field bo)
      [(index, 4), (TPM_MIN_AUTH_SIZE, 4), (TPM_RS_PW, 4), (TPM_ZERO_NONCE_SIZE, 2),
       (TPM_ATTRIBUTES_DISABLE, 1), (TPM_ZERO_HMAC_SIZE, 2), (TPM_SINGLE_HASH_COUNT, 4),
       (ucast algorithm, 2)]) (\<lambda>_. add_bytes bo dig 0 (unat n)))
    (\<lambda>_. built bo tg code (extend_bytes index algorithm (take (unat n) dig))) (tpm_cmd_init bo tg code)"
  using build_fields_then_bytes [OF _ assms, of
      "[(index, 4), (TPM_MIN_AUTH_SIZE, 4), (TPM_RS_PW, 4), (TPM_ZERO_NONCE_SIZE, 2),
       (TPM_ATTRIBUTES_DISABLE, 1), (TPM_ZERO_HMAC_SIZE, 2), (TPM_SINGLE_HASH_COUNT, 4),
       (ucast algorithm, 2)]" bo tg code]
  by (simp add: valid_field_def field_bytes_def extend_bytes_def)

lemma extend_outcome:
  assumes "unat n \<le> length dig"
  shows "wp True True (tpm_pcr_extend bo (Some chip) index algorithm (Some dig) n)
    (outcome bo chip zero_cmd
       (wire TPM_ST_SESSIONS TPM_CMD_PCR_EXTEND (extend_bytes index algorithm (take (unat n) dig)))
       extend_code (\<lambda>rc. rc) s) s"
  unfolding tpm_pcr_extend_def option.case
  by (rule command_outcome [OF wf_zero_cmd extend_adds [OF assms]]) (simp add: extend_code_def Let_def)

lemma build_cmd_too_long:
  assumes "wp False False adds (\<lambda>_. built bo tg code bs) (tpm_cmd_init bo tg code)"
    and "MAX_SIZE_CMDBUF < TPM_HEADER_SIZE + length bs"
  shows "\<exists>cmd. build_cmd bo tg code adds = ret (TPM_INVALID_PARAM, cmd)"
  using build_cmd_eq [OF assms(1)] assms(2) by (auto simp: built_def)

lemma extend_too_long:
  assumes "unat n \<le> length dig" and "MAX_SIZE_CMDBUF < 33 + unat n"
  shows "tpm_pcr_extend bo chip index algorithm (Some dig) n = (ret TPM_INVALID_PARAM :: ('p tpm_lib, int) op)"
proof -
  have "MAX_SIZE_CMDBUF < TPM_HEADER_SIZE + length (extend_bytes index algorithm (take (unat n) dig))"
    using assms by (simp add: extend_bytes_def)
  from build_cmd_too_long [OF extend_adds [OF assms(1)] this] obtain cmd where
    "(build_cmd bo TPM_ST_SESSIONS TPM_CMD_PCR_EXTEND
      (andthen (each (add_field bo)
         [(index, 4), (TPM_MIN_AUTH_SIZE, 4), (TPM_RS_PW, 4), (TPM_ZERO_NONCE_SIZE, 2),
          (TPM_ATTRIBUTES_DISABLE, 1), (TPM_ZERO_HMAC_SIZE, 2), (TPM_SINGLE_HASH_COUNT, 4), (ucast algorithm, 2)])
       (\<lambda>_. add_bytes bo dig 0 (unat n))) :: ('p tpm_lib, int \<times> tpm_cmd) op) = ret (TPM_INVALID_PARAM, cmd)" by blast
  then show ?thesis unfolding tpm_pcr_extend_def by simp
qed

text \<open>Three mask bytes with one bit set, the one of the register.\<close>

definition pcr_select_bytes :: "nat \<Rightarrow> byte list" where
  "pcr_select_bytes n = map (\<lambda>j. if n div 8 = j then push_bit (n mod 8) 1 else 0) [0, 1, 2]"

lemma select_byte:
  assumes "n < 24" and "j < 3"
  shows "(ucast (drop_bit (8 * j) (push_bit n 1 :: u32) AND 0xFF) :: byte) = (if n div 8 = j then push_bit (n mod 8) 1 else 0)"
  unfolding ucast_low
proof (rule bit_word_eqI)
  fix k assume "k < LENGTH(8)"
  then have k: "k < 8" by simp
  have "8 * j + k = n \<longleftrightarrow> n div 8 = j \<and> n mod 8 = k" using k by auto
  then show "bit (ucast (drop_bit (8 * j) (push_bit n 1 :: u32)) :: byte) k =
      bit (if n div 8 = j then push_bit (n mod 8) 1 else 0 :: byte) k"
    using assms k by (auto simp: bit_simps)
qed

lemma pcr_select_fields:
  assumes "n < 24"
  shows "[ucast ((push_bit n 1 :: u32) AND 0xFF), ucast (drop_bit 8 (push_bit n 1 :: u32) AND 0xFF),
     ucast (drop_bit 16 (push_bit n 1 :: u32) AND 0xFF)] = pcr_select_bytes n"
  using select_byte [OF assms, of 0] select_byte [OF assms, of 1] select_byte [OF assms, of 2]
  by (simp add: pcr_select_bytes_def del: ucast_low)

definition read_bytes :: "u32 \<Rightarrow> u16 \<Rightarrow> byte list" where
  "read_bytes index algorithm = be32 1 @ be16 algorithm @ [3] @ pcr_select_bytes (unat index)"

text \<open>
  The digest in a response, from the bytes the TPM has sent: the response code, the size
  limits of the structure, the digest size at bytes 18 and 19 against the structure, the
  caller's buffer and the bytes received.
\<close>

definition digest_of :: "u64 \<Rightarrow> byte list \<Rightarrow> byte list \<Rightarrow> int + byte list" where
  "digest_of len hs ds =
     (let n = announced hs - TPM_HEADER_SIZE; k = unat (of_be16 (ds ! 18) (ds ! 19)) in
      if response_code hs \<noteq> TPM_RESPONSE_SUCCESS then Inl TPM_ERR_RESPONSE
      else if announced hs < TPM_HEADER_SIZE + 20 \<or> n > 68 then Inl TPM_ERR_RESPONSE
      else if k > MAX_DIGEST_SIZE \<or> k > unat len then Inl TPM_INVALID_PARAM
      else if 20 + k > n then Inl TPM_ERR_RESPONSE
      else Inr (take k (drop 20 ds)))"

lemma header_wrap:
  fixes w :: u32
  shows "unat (w - 10) = (if unat w < 10 then unat w + 2 ^ 32 - 10 else unat w - 10)"
  by (simp add: unat_sub_if' word_le_nat_alt)

lemma read_single_digest_eq:
  assumes "wf_cmd junk" and "announced hs \<le> TPM_HEADER_SIZE + length ds" and "length ds \<le> MAX_CMD_DATA"
  shows "read_single_digest bo (response bo junk hs ds) len = digest_of len hs ds"
proof (cases "announced hs < 30 \<or> announced hs - 10 > 68 \<or> response_code hs \<noteq> 0")
  case True
  then show ?thesis
    by (auto simp: read_single_digest_def digest_of_def Let_def header_wrap announced_def [symmetric])
next
  case False
  then have n: "30 \<le> announced hs" "announced hs \<le> 78" and ds: "20 \<le> length ds" using assms(2) by auto
  define d where "d = take 68 (data (response bo junk hs ds))"
  have pre: "take (length ds) (data (response bo junk hs ds)) = ds"
    by (simp add: response_def overlay_def)
  have len: "length (data (response bo junk hs ds)) = 246"
    using wf_response [OF assms(1,3)] by (simp add: wf_cmd_def)
  have nth: "d ! 18 = ds ! 18" "d ! 19 = ds ! 19"
    using ds len by (simp_all add: d_def response_def overlay_def nth_append)
  have dig: "take k (drop 20 d) = take k (drop 20 ds)" if "20 + k \<le> announced hs - 10" for k
  proof -
    have k: "20 + k \<le> length ds" "20 + k \<le> 68" using that assms(2) n by simp_all
    have "take (20 + k) d = take (20 + k) ds"
      using k by (simp add: d_def response_def overlay_def min_def)
    then have "drop 20 (take (20 + k) d) = drop 20 (take (20 + k) ds)" by simp
    then show ?thesis by (simp add: drop_take)
  qed
  show ?thesis
    using False n dig nth
    by (auto simp: read_single_digest_def digest_of_def Let_def header_wrap announced_def [symmetric]
        d_def [symmetric] not_less)
qed

definition read_outcome :: "byte list \<Rightarrow> u64 \<Rightarrow> byte list \<Rightarrow> byte list \<Rightarrow> int \<times> byte list option" where
  "read_outcome out len hs ds =
     (case digest_of len hs ds of
        Inl err \<Rightarrow> (err, Some (overlay out 0 (replicate (unat len) 0)))
      | Inr dg \<Rightarrow> (TPM_SUCCESS, Some (overlay out 0 (dg @ replicate (unat len - length dg) 0))))"

lemma overlay_zeros:
  "length dg \<le> n \<Longrightarrow> n \<le> length out \<Longrightarrow>
    overlay (overlay out 0 (replicate n 0)) 0 dg = overlay out 0 (dg @ replicate (n - length dg) 0)"
  by (simp add: overlay_def)

lemma length_digest_of: "digest_of len hs ds = Inr dg \<Longrightarrow> length dg \<le> unat len"
  by (auto simp: digest_of_def Let_def split: if_splits)

lemma read_adds:
  assumes i: "unat index < 24"
  shows "wp False False (each (add_field bo)
      [(1, 4), (ucast algorithm, 2), (ucast TPM_PCR_SELECT_SIZE, 1),
       (push_bit (unat index) 1 AND 0xFF, 1), (drop_bit 8 (push_bit (unat index) 1) AND 0xFF, 1),
       (drop_bit 16 (push_bit (unat index) 1) AND 0xFF, 1)])
    (\<lambda>_. built bo tg code (read_bytes index algorithm)) (tpm_cmd_init bo tg code)"
  using build_fields [of "[(1, 4), (ucast algorithm, 2), (ucast TPM_PCR_SELECT_SIZE, 1),
       (push_bit (unat index) 1 AND 0xFF, 1), (drop_bit 8 (push_bit (unat index) 1) AND 0xFF, 1),
       (drop_bit 16 (push_bit (unat index) 1) AND 0xFF, 1)]" bo tg code]
  by (simp add: valid_field_def field_bytes_def read_bytes_def pcr_select_fields [OF i, symmetric])

text \<open>A register number beyond the mask is refused before the buffer is cleared.\<close>

lemma read_single_outcome:
  assumes junk: "wf_cmd junk" and len: "unat n \<le> length out"
  shows "wp True True (tpm_pcr_read_single bo junk (Some chip) index algorithm (Some out) n)
    (\<lambda>r t. if index < 24
       then outcome bo chip junk (wire TPM_ST_NO_SESSIONS TPM_CMD_PCR_READ (read_bytes index algorithm))
         (read_outcome out n) (\<lambda>rc. (rc, Some (overlay out 0 (replicate (unat n) 0)))) s r t
       else r = (TPM_INVALID_PARAM, Some out) \<and> t = s) s"
proof (cases "index < 24")
  case True
  then have i: "unat index < 24" by (simp add: word_less_nat_alt)
  have guard: "(index \<ge> ucast TPM_PCR_SELECT_SIZE * 8) = False" "(unat n > length out) = False"
    using True len by (simp_all add: not_le)
  have "(case read_single_digest bo (response bo junk hs ds) n of
        Inl err \<Rightarrow> ret (err, Some (overlay out 0 (replicate (unat n) 0)))
      | Inr digest \<Rightarrow> ret (TPM_SUCCESS, Some (overlay (overlay out 0 (replicate (unat n) 0)) 0 digest))) =
    ret (read_outcome out n hs ds)"
    if "announced hs \<le> TPM_HEADER_SIZE + length ds" "length ds \<le> MAX_CMD_DATA" for hs ds
    using length_digest_of [of n hs ds] len
    by (auto simp: read_single_digest_eq [OF junk that] read_outcome_def overlay_zeros split: sum.splits)
  then show ?thesis
    unfolding tpm_pcr_read_single_def guard if_False Let_def option.case if_P [OF True]
    by (rule command_outcome [OF junk read_adds [OF i]])
next
  case False
  then have "index \<ge> ucast TPM_PCR_SELECT_SIZE * 8" by simp
  with False show ?thesis by (simp add: tpm_pcr_read_single_def wp_ret)
qed

subsection \<open>Allocation\<close>

definition bank_fields :: "tpm_pcr_allocate_bank_t \<Rightarrow> field list" where
  "bank_fields b = (ucast (ab_hash_alg b), 2) # (3, 1) # map (\<lambda>x. (ucast x, 1)) (ab_pcr_select b)"

definition bank_bytes :: "tpm_pcr_allocate_bank_t \<Rightarrow> byte list" where
  "bank_bytes b = be16 (ab_hash_alg b) @ [3] @ ab_pcr_select b"

text \<open>The banks in front of the terminator.\<close>

definition listed_banks :: "tpm_pcr_allocate_bank_t list \<Rightarrow> tpm_pcr_allocate_bank_t list" where
  "listed_banks banks = takeWhile (\<lambda>b. ab_hash_alg b \<noteq> TPM_ALG_NULL) banks"

definition allocate_fields :: "byte list \<Rightarrow> tpm_pcr_allocate_bank_t list \<Rightarrow> field list" where
  "allocate_fields pw banks =
     [(TPM_RH_PLATFORM, 4), (TPM_MIN_AUTH_SIZE + of_nat (length pw), 4), (TPM_RS_PW, 4),
      (TPM_ZERO_NONCE_SIZE, 2), (TPM_ATTRIBUTES_DISABLE, 1), (of_nat (length pw), 2)] @
     map (\<lambda>x. (ucast x, 1)) pw @ [(of_nat (length banks), 4)] @ concat (map bank_fields banks)"

definition allocate_bytes :: "byte list \<Rightarrow> tpm_pcr_allocate_bank_t list \<Rightarrow> byte list" where
  "allocate_bytes pw banks =
     be32 0x4000000C @ be32 (9 + of_nat (length pw)) @ be32 0x40000009 @ be16 0 @ [0] @
     be16 (of_nat (length pw)) @ pw @ be32 (of_nat (length banks)) @ concat (map bank_bytes banks)"

lemma count_banks_eq:
  "terminated ab_hash_alg n (drop i banks) \<Longrightarrow> i \<le> length banks \<Longrightarrow>
    count_banks n i banks = ret (i + length (listed_banks (drop i banks)))"
proof (induction n arbitrary: i)
  case (Suc n)
  show ?case
  proof (cases "i < length banks")
    case True
    then have d: "drop i banks = banks ! i # drop (Suc i) banks" by (simp add: Cons_nth_drop_Suc)
    with Suc True show ?thesis
      by (auto simp: array_get_def listed_banks_def terminated_Cons)
  qed (use Suc.prems in simp)
qed simp

lemma add_banks_each:
  "i + n \<le> length banks \<Longrightarrow> \<forall>b \<in> set banks. length (ab_pcr_select b) = 3 \<Longrightarrow>
    add_banks bo banks i n = each (add_field bo) (concat (map bank_fields (take n (drop i banks))))"
proof (induction n arbitrary: i)
  case (Suc n)
  then have i: "i < length banks" and l: "length (ab_pcr_select (banks ! i)) = 3" by simp_all
  have "drop i banks = banks ! i # drop (Suc i) banks" using i by (simp add: Cons_nth_drop_Suc)
  then show ?case
    using Suc i add_bytes_all [of bo "ab_pcr_select (banks ! i)"] l
    by (simp add: array_get_def bank_fields_def each_append andthen_assoc)
qed simp

lemma listed_take: "take (length (listed_banks banks)) banks = listed_banks banks"
  by (metis listed_banks_def takeWhile_eq_take)

lemma add_allocate_each:
  assumes "unat n = length pw" and "\<forall>b \<in> set banks. length (ab_pcr_select b) = 3"
  shows "add_allocate_fields bo pw n banks (length (listed_banks banks)) =
    each (add_field bo) (allocate_fields pw (listed_banks banks))"
proof -
  have n: "ucast n = (of_nat (length pw) :: u32)" unfolding assms(1) [symmetric] by simp
  have "length (listed_banks banks) \<le> length banks" by (simp add: listed_banks_def length_takeWhile_le)
  then have "add_banks bo banks 0 (length (listed_banks banks)) =
      each (add_field bo) (concat (map bank_fields (listed_banks banks)))"
    using add_banks_each [of 0 "length (listed_banks banks)" banks bo] assms(2) by (simp add: listed_take)
  then show ?thesis
    unfolding add_allocate_fields_def allocate_fields_def assms(1) n
    by (simp add: each_append andthen_assoc add_bytes_all)
qed

lemma field_bytes_bank: "concat (map field_bytes (bank_fields b)) = bank_bytes b"
  using byte_fields [of "ab_pcr_select b"] by (simp add: bank_fields_def bank_bytes_def field_bytes_def)

lemma field_bytes_banks: "concat (map field_bytes (concat (map bank_fields bs))) = concat (map bank_bytes bs)"
  by (induction bs) (simp_all add: field_bytes_bank)

lemma ucast_of_nat_u16 [simp]: "ucast (of_nat n :: u32) = (of_nat n :: u16)"
  by (rule bit_word_eqI) (simp add: bit_simps)

lemma allocate_adds:
  assumes "unat n = length pw" and "\<forall>b \<in> set banks. length (ab_pcr_select b) = 3"
  shows "wp False False (add_allocate_fields bo pw n banks (length (listed_banks banks)))
    (\<lambda>_. built bo tg code (allocate_bytes pw (listed_banks banks))) (tpm_cmd_init bo tg code)"
proof -
  have "\<forall>x \<in> set (allocate_fields pw bs). valid_field x" for bs
    by (auto simp: allocate_fields_def valid_field_def bank_fields_def)
  moreover have "concat (map field_bytes (allocate_fields pw bs)) = allocate_bytes pw bs" for bs
    using byte_fields [of pw] field_bytes_banks [of bs]
    by (simp add: allocate_fields_def allocate_bytes_def field_bytes_def del: map_map)
  ultimately show ?thesis
    unfolding add_allocate_each [OF assms] using build_fields by metis
qed

text \<open>Reading a 32-bit value at the front of what is left.\<close>

definition be32_at :: "byte list \<Rightarrow> nat \<Rightarrow> u32" where
  "be32_at bs i = of_be32 (bs ! i) (bs ! (i + 1)) (bs ! (i + 2)) (bs ! (i + 3))"

lemma read_var_wp:
  assumes "iter_inv s" and "iter_view s = Some bs"
  shows "4 \<le> length bs \<Longrightarrow> wp False False (read_var iter_read_u32_be (Some v))
      (\<lambda>x t. x = Some (be32_at bs 0) \<and> iter_inv t \<and> iter_view t = Some (drop 4 bs)) s"
    and "1 \<le> length bs \<Longrightarrow> wp False False (read_var iter_read_u8 (Some w))
      (\<lambda>x t. x = Some (bs ! 0) \<and> iter_inv t \<and> iter_view t = Some (drop 1 bs)) s"
proof -
  assume "4 \<le> length bs"
  then obtain a b c d ys where bs: "bs = a # b # c # d # ys" using list_of_4 by (meson not_less)
  show "wp False False (read_var iter_read_u32_be (Some v))
      (\<lambda>x t. x = Some (be32_at bs 0) \<and> iter_inv t \<and> iter_view t = Some (drop 4 bs)) s"
    unfolding read_var_def
    by (rule wp_seq [OF read_u32 [OF assms(1) assms(2) [unfolded bs]]])
      (auto simp: wp_simps be32_at_def bs numeral_eq_Suc split: prod.splits)
next
  assume "1 \<le> length bs"
  then obtain a ys where bs: "bs = a # ys" by (cases bs) auto
  show "wp False False (read_var iter_read_u8 (Some w))
      (\<lambda>x t. x = Some (bs ! 0) \<and> iter_inv t \<and> iter_view t = Some (drop 1 bs)) s"
    unfolding read_var_def
    by (rule wp_seq [OF read_u8 [OF assms(1) assms(2) [unfolded bs]]])
      (auto simp: wp_simps bs split: prod.splits)
qed

lemma be32_at_drop: "i + 4 \<le> length bs \<Longrightarrow> be32_at (drop i bs) 0 = be32_at bs i"
  by (simp add: be32_at_def)

lemma be32_at_take: "i + 4 \<le> n \<Longrightarrow> be32_at (take n bs) i = be32_at bs i"
  by (simp add: be32_at_def)

text \<open>
  The result of an allocation: an error and unchanged outputs for a wrong tag, a nonzero
  response code or a response of less than 27 bytes; otherwise the success flag (byte 4 of the
  parameters) and the three sizes after it.
\<close>

definition allocate_outcome ::
  "bool \<Rightarrow> u32 \<Rightarrow> u32 \<Rightarrow> u32 \<Rightarrow> byte list \<Rightarrow> byte list \<Rightarrow>
     int \<times> bool option \<times> u32 option \<times> u32 option \<times> u32 option" where
  "allocate_outcome a b c d hs ds =
     (if response_tag hs \<noteq> TPM_ST_SESSIONS \<or> response_code hs \<noteq> TPM_RESPONSE_SUCCESS \<or>
         announced hs < TPM_HEADER_SIZE + 17
      then (TPM_ERR_RESPONSE, Some a, Some b, Some c, Some d)
      else (TPM_SUCCESS, Some (ds ! 4 \<noteq> 0), Some (be32_at ds 5), Some (be32_at ds 9), Some (be32_at ds 13)))"

lemma allocate_response_eq:
  assumes "announced hs \<le> TPM_HEADER_SIZE + length ds" and "length ds \<le> MAX_CMD_DATA" and "wf_cmd buf"
  shows "allocate_response bo (response bo buf hs ds) (Some a) (Some b) (Some c) (Some d) =
    ret (allocate_outcome a b c d hs ds)"
proof (cases "response_tag hs \<noteq> 0x8002 \<or> response_code hs \<noteq> 0 \<or> announced hs < 27")
  case True
  then show ?thesis
    by (auto simp: allocate_response_def allocate_outcome_def Let_def announced_def [symmetric])
next
  case False
  define bs where "bs = take (announced hs - 10) ds"
  have n: "27 \<le> announced hs" "announced hs \<le> 256" using False assms by auto
  then have lbs: "17 \<le> length bs" using assms(1) by (simp add: bs_def)
  let ?w = "of_be32 (hs ! 2) (hs ! 3) (hs ! 4) (hs ! 5)"
  define s where "s = Some \<lparr>ptr = Some (data (response bo buf hs ds)), remain = ucast (?w - 10), error_state = 0\<rparr>"
  have w: "unat ?w = announced hs" by (simp add: announced_def)
  have rem: "unat (ucast (?w - 10) :: u64) = announced hs - 10"
    using n by (simp add: header_wrap w)
  have "take (announced hs - 10) (data (response bo buf hs ds)) = bs"
    using assms(1) by (simp add: response_def overlay_def bs_def)
  moreover have "length (data (response bo buf hs ds)) = 246"
    using wf_response [OF assms(3,2)] by (simp add: wf_cmd_def)
  ultimately have s: "iter_inv s" "iter_view s = Some bs"
    using n(2) rem by (simp_all add: s_def iter_inv_def iter_view_def)
  have nth: "bs ! 4 = ds ! 4" "be32_at bs 5 = be32_at ds 5" "be32_at bs 9 = be32_at ds 9" "be32_at bs 13 = be32_at ds 13"
    using n by (simp_all add: bs_def be32_at_take)
  have "with_local s (
        andthen (read_var iter_read_u32_be (Some 0)) (\<lambda>param_size.
        andthen (read_var iter_read_u8 (Some 0)) (\<lambda>alloc_success.
        andthen (read_var iter_read_u32_be (Some b)) (\<lambda>out_max_pcr.
        andthen (read_var iter_read_u32_be (Some c)) (\<lambda>out_size_needed.
        andthen (read_var iter_read_u32_be (Some d)) (\<lambda>out_size_available.
        andthen iter_error (\<lambda>err.
        if err \<noteq> TPM_SUCCESS
        then ret (err, Some a, out_max_pcr, out_size_needed, out_size_available)
        else ret (TPM_SUCCESS, Some (alloc_success \<noteq> Some 0), out_max_pcr, out_size_needed,
                  out_size_available)))))))) = ret (allocate_outcome a b c d hs ds)"
  proof (rule with_local_ret, rule wp_seq [OF read_var_wp(1) [OF s]], goal_cases)
    case (2 x t)
    then have t: "iter_inv t" "iter_view t = Some (drop 4 bs)" by auto
    show ?case
    proof (rule wp_seq [OF read_var_wp(2) [OF t]], goal_cases)
      case (2 y u)
      then have u: "iter_inv u" "iter_view u = Some (drop 5 bs)" and y: "y = Some (bs ! 4)" using lbs by auto
      show ?case
      proof (rule wp_seq [OF read_var_wp(1) [OF u]], use lbs in simp, elim conjE,
          rule wp_seq [OF read_var_wp(1)], assumption, assumption, use lbs in simp, elim conjE,
          rule wp_seq [OF read_var_wp(1)], assumption, assumption, use lbs in simp, elim conjE,
          rule error_ok, assumption, assumption, goal_cases)
        case 1
        then show ?case
          using lbs False y
          by (simp add: wp_simps allocate_outcome_def be32_at_drop nth)
      qed
    qed (use lbs in simp)
  qed (use lbs in simp)
  then show ?thesis
    using False n by (simp add: allocate_response_def Let_def w s_def)
qed

lemma allocate_outcomes:
  assumes pw: "unat n = length pw" and banks: "\<forall>b \<in> set banks. length (ab_pcr_select b) = 3"
    and nul: "terminated ab_hash_alg TPM_MAX_PCR_SELECTIONS banks" and ne: "listed_banks banks \<noteq> []"
  shows "wp True True
    (tpm_pcr_allocate_auth_password bo (Some chip) (Some pw) n (Some banks) (Some a) (Some b) (Some c) (Some d))
    (outcome bo chip zero_cmd (wire TPM_ST_SESSIONS TPM_CMD_PCR_ALLOCATE (allocate_bytes pw (listed_banks banks)))
       (allocate_outcome a b c d) (\<lambda>rc. (rc, Some a, Some b, Some c, Some d)) s) s"
proof -
  have cnt: "count_banks TPM_MAX_PCR_SELECTIONS 0 banks = ret (length (listed_banks banks))"
    using count_banks_eq [of TPM_MAX_PCR_SELECTIONS 0 banks] nul by simp
  have le: "length (listed_banks banks) < TPM_MAX_PCR_SELECTIONS"
    using nul by (simp add: terminated_def listed_banks_def)
  have guards: "(length (listed_banks banks) = 0) = False"
    "(TPM_MAX_PCR_SELECTIONS \<le> length (listed_banks banks)) = False"
    using ne le by simp_all
  have frame: "wp True True (andthen (build_cmd bo TPM_ST_SESSIONS TPM_CMD_PCR_ALLOCATE
        (add_allocate_fields bo pw n banks (length (listed_banks banks)))) (\<lambda>(rc, cmd).
      if rc < 0 then ret (rc, Some a, Some b, Some c, Some d) else
      andthen (tpm_xfer bo (Some chip) cmd zero_cmd) (\<lambda>(rc, resp).
      if rc < 0 then ret (rc, Some a, Some b, Some c, Some d) else
      allocate_response bo resp (Some a) (Some b) (Some c) (Some d))))
    (outcome bo chip zero_cmd (wire TPM_ST_SESSIONS TPM_CMD_PCR_ALLOCATE (allocate_bytes pw (listed_banks banks)))
       (allocate_outcome a b c d) (\<lambda>rc. (rc, Some a, Some b, Some c, Some d)) s) s"
    by (rule command_outcome [OF wf_zero_cmd allocate_adds [OF pw banks]]) (rule allocate_response_eq [OF _ _ wf_zero_cmd])
  show ?thesis
    using frame
    by (simp add: tpm_pcr_allocate_auth_password_def cnt guards ne Let_def
        del: TPM_MAX_PCR_SELECTIONS_def TPM_ST_SESSIONS_def TPM_CMD_PCR_ALLOCATE_def)
qed

end
