(* ===== verification/TPM_GetCap.thy ===== *)
theory TPM_GetCap
  imports TPM_Cmds
begin

unbundle bit_operations_syntax

text \<open>
  The capability queries of \<^verbatim>\<open>src/tpm2_cmds.c\<close> (lines 306 to 360 and 924 to 1230). A query asks
  for one page of entries after the other until the TPM has no more or the caller has what it
  wants; at most \<open>TPM_MAX_PAGES\<close> pages are asked for.
\<close>

section \<open>One page\<close>

text \<open>The result is the return code and the two output variables.\<close>

definition getcap_raw ::
  "byte_order \<Rightarrow> tpm_chip_data option \<Rightarrow> u32 \<Rightarrow> u32 \<Rightarrow> u32 \<Rightarrow> tpm_cmd option \<Rightarrow> bool option \<Rightarrow>
     ('p tpm_lib, int \<times> tpm_cmd option \<times> bool option) op" where
  "getcap_raw bo chip capability property property_count resp_out more_data_out =
     (if chip = None \<or> resp_out = None \<or> more_data_out = None
      then ret (TPM_INVALID_PARAM, resp_out, more_data_out) else
      andthen (build_cmd bo TPM_ST_NO_SESSIONS TPM_CMD_GET_CAPABILITY
        (each (add_field bo) [(capability, 4), (property, 4), (property_count, 4)])) (\<lambda>(rc, cmd).
      if rc < 0 then ret (rc, Some zero_cmd, more_data_out) else
      andthen (tpm_xfer bo chip cmd zero_cmd) (\<lambda>(rc, resp).
      if rc < 0 then ret (rc, Some resp, more_data_out) else
      if be16toh bo (tag (header resp)) \<noteq> TPM_ST_NO_SESSIONS
      then ret (TPM_ERR_RESPONSE, Some resp, more_data_out) else
      if be32toh bo (cmd_code (header resp)) \<noteq> 0
      then ret (TPM_ERR_RESPONSE, Some resp, more_data_out) else
      let resp_size = unat (be32toh bo (cmd_size (header resp))) in
      if resp_size < TPM_HEADER_SIZE + 1 \<or> resp_size > sizeof_tpm_cmd
      then ret (TPM_ERR_RESPONSE, Some resp, more_data_out) else
      andthen (array_get (data resp) 0) (\<lambda>b.
      ret (TPM_SUCCESS, Some resp, Some (b \<noteq> 0))))))"

section \<open>Queries of listed algorithms and banks\<close>

text \<open>
  The loop that resets the outputs: whether the terminator was found, the queries, the largest
  algorithm, the number of items.
\<close>

fun reset_algs :: "nat \<Rightarrow> nat \<Rightarrow> tpm_alg_query_t list \<Rightarrow> u16 \<Rightarrow> ('s, bool \<times> tpm_alg_query_t list \<times> u16 \<times> nat) op" where
  "reset_algs 0 i query max_alg = ret (False, query, max_alg, i)"
| "reset_algs (Suc n) i query max_alg =
     andthen (array_get query i) (\<lambda>item.
     if alg_id item = TPM_ALG_NULL then ret (True, query, max_alg, i) else
     reset_algs n (i + 1) (query[i := item\<lparr>enabled := False\<rparr>])
       (if alg_id item > max_alg then alg_id item else max_alg))"

fun reset_pcrs :: "nat \<Rightarrow> nat \<Rightarrow> tpm_pcr_bank_query_t list \<Rightarrow> u16 \<Rightarrow> ('s, bool \<times> tpm_pcr_bank_query_t list \<times> u16 \<times> nat) op" where
  "reset_pcrs 0 i query max_hash = ret (False, query, max_hash, i)"
| "reset_pcrs (Suc n) i query max_hash =
     andthen (array_get query i) (\<lambda>item.
     if bq_hash_alg item = TPM_ALG_NULL then ret (True, query, max_hash, i) else
     reset_pcrs n (i + 1) (query[i := item\<lparr>bq_pcr_select := replicate (unat TPM_PCR_SELECT_SIZE) 0\<rparr>])
       (if bq_hash_alg item > max_hash then bq_hash_alg item else max_hash))"

text \<open>
  The \<^verbatim>\<open>do \<dots> while\<close> loops; the first argument is the number of pages left, \<open>TPM_MAX_PAGES\<close> minus
  \<^verbatim>\<open>pages_used\<close>. The variables of the loop are \<^verbatim>\<open>property\<close>, \<^verbatim>\<open>parsed_count\<close>, the last
  algorithm, \<^verbatim>\<open>more_data\<close> and the queries.
\<close>

fun algs_pages ::
  "nat \<Rightarrow> byte_order \<Rightarrow> tpm_chip_data option \<Rightarrow> u16 \<Rightarrow> u32 \<Rightarrow> u32 \<Rightarrow> u16 \<Rightarrow> bool \<Rightarrow> tpm_alg_query_t list \<Rightarrow>
     ('p tpm_lib, int \<times> tpm_alg_query_t list) op" where
  "algs_pages 0 bo chip max_alg property parsed_count last_alg more_data query =
     ret (TPM_ERR_ITERATION_LIMIT, query)"
| "algs_pages (Suc n) bo chip max_alg property parsed_count last_alg more_data query =
     andthen (getcap_raw bo chip TPM_CAP_ALGS property TPM_DEFAULT_PAGE_COUNT (Some zero_cmd) (Some more_data))
       (\<lambda>(rc, resp, more_data).
     if rc \<noteq> TPM_SUCCESS then ret (rc, query) else
     andthen (parse_algs bo resp query (Some parsed_count) (Some last_alg))
       (\<lambda>(rc, query, parsed_count, last_alg).
     if rc \<noteq> TPM_SUCCESS then ret (rc, query) else
     if the more_data \<and> the parsed_count = 0 then ret (TPM_ERR_RESPONSE, query) else
     if the more_data \<and> the last_alg < max_alg
     then algs_pages n bo chip max_alg (ucast (the last_alg) + 1) (the parsed_count) (the last_alg)
            (the more_data) query
     else ret (TPM_SUCCESS, query)))"

fun pcrs_pages ::
  "nat \<Rightarrow> byte_order \<Rightarrow> tpm_chip_data option \<Rightarrow> u16 \<Rightarrow> u32 \<Rightarrow> u32 \<Rightarrow> u16 \<Rightarrow> bool \<Rightarrow> tpm_pcr_bank_query_t list \<Rightarrow>
     ('p tpm_lib, int \<times> tpm_pcr_bank_query_t list) op" where
  "pcrs_pages 0 bo chip max_hash property parsed_count last_hash more_data query =
     ret (TPM_ERR_ITERATION_LIMIT, query)"
| "pcrs_pages (Suc n) bo chip max_hash property parsed_count last_hash more_data query =
     andthen (getcap_raw bo chip TPM_CAP_PCRS property TPM_DEFAULT_PAGE_COUNT (Some zero_cmd) (Some more_data))
       (\<lambda>(rc, resp, more_data).
     if rc \<noteq> TPM_SUCCESS then ret (rc, query) else
     andthen (parse_pcrs bo resp query (Some parsed_count) (Some last_hash))
       (\<lambda>(rc, query, parsed_count, last_hash).
     if rc \<noteq> TPM_SUCCESS then ret (rc, query) else
     if the more_data \<and> the parsed_count = 0 then ret (TPM_ERR_RESPONSE, query) else
     if the more_data \<and> the last_hash < max_hash
     then pcrs_pages n bo chip max_hash (ucast (the last_hash) + 1) (the parsed_count) (the last_hash)
            (the more_data) query
     else ret (TPM_SUCCESS, query)))"

definition tpm_getcap_query_algs ::
  "byte_order \<Rightarrow> tpm_chip_data option \<Rightarrow> tpm_alg_query_t list option \<Rightarrow>
     ('p tpm_lib, int \<times> tpm_alg_query_t list option) op" where
  "tpm_getcap_query_algs bo chip query =
     (case query of
        None \<Rightarrow> ret (TPM_INVALID_PARAM, query)
      | Some qs \<Rightarrow>
          if chip = None then ret (TPM_INVALID_PARAM, query) else
          andthen (reset_algs TPM_MAX_ALG_PROPERTIES 0 qs 0) (\<lambda>(found_term, qs, max_alg, item_count).
          if \<not> found_term then ret (TPM_INVALID_PARAM, Some qs) else
          if item_count = 0 then ret (TPM_SUCCESS, Some qs) else
          andthen (algs_pages TPM_MAX_PAGES bo chip max_alg 0 0 0 False qs) (\<lambda>(rc, qs).
          ret (rc, Some qs))))"

definition tpm_getcap_query_pcrs ::
  "byte_order \<Rightarrow> tpm_chip_data option \<Rightarrow> tpm_pcr_bank_query_t list option \<Rightarrow>
     ('p tpm_lib, int \<times> tpm_pcr_bank_query_t list option) op" where
  "tpm_getcap_query_pcrs bo chip query =
     (case query of
        None \<Rightarrow> ret (TPM_INVALID_PARAM, query)
      | Some qs \<Rightarrow>
          if chip = None then ret (TPM_INVALID_PARAM, query) else
          andthen (reset_pcrs TPM_MAX_PCR_SELECTIONS 0 qs 0) (\<lambda>(found_term, qs, max_hash, item_count).
          if \<not> found_term then ret (TPM_INVALID_PARAM, Some qs) else
          if item_count = 0 then ret (TPM_SUCCESS, Some qs) else
          andthen (pcrs_pages TPM_MAX_PAGES bo chip max_hash 0 0 0 False qs) (\<lambda>(rc, qs).
          ret (rc, Some qs))))"

definition tpm_has_alg ::
  "byte_order \<Rightarrow> tpm_chip_data option \<Rightarrow> u16 \<Rightarrow> bool option \<Rightarrow> ('p tpm_lib, int \<times> bool option) op" where
  "tpm_has_alg bo chip alg out_supported =
     (if out_supported = None then ret (TPM_INVALID_PARAM, out_supported) else
      andthen (tpm_getcap_query_algs bo chip
        (Some [\<lparr>alg_id = alg, enabled = False\<rparr>, \<lparr>alg_id = TPM_ALG_NULL, enabled = False\<rparr>])) (\<lambda>(rc, item).
      if rc \<noteq> TPM_SUCCESS then ret (rc, out_supported) else
      andthen (array_get (the item) 0) (\<lambda>it. ret (TPM_SUCCESS, Some (enabled it)))))"

section \<open>The properties of one algorithm\<close>

definition tpm_get_alg_props ::
  "byte_order \<Rightarrow> tpm_chip_data option \<Rightarrow> u16 \<Rightarrow> bool option \<Rightarrow> u32 option \<Rightarrow>
     ('p tpm_lib, int \<times> bool option \<times> u32 option) op" where
  "tpm_get_alg_props bo chip alg out_supported out_props =
     (if chip = None \<or> out_supported = None \<or> out_props = None
      then ret (TPM_INVALID_PARAM, out_supported, out_props) else
      andthen (getcap_raw bo chip TPM_CAP_ALGS (ucast alg) 1 (Some zero_cmd) (Some False))
        (\<lambda>(rc, resp, more_data).
      if rc \<noteq> TPM_SUCCESS then ret (rc, out_supported, out_props) else
      with_local iter_zero (
        andthen (getcap_payload_start bo resp TPM_CAP_ALGS) (\<lambda>rc.
        if rc \<noteq> TPM_SUCCESS then ret (rc, Some False, Some 0) else
        andthen (into iter_read_u32_be 0) (\<lambda>count.
        andthen (into iter_read_u16_be TPM_ALG_NULL) (\<lambda>got.
        andthen (into iter_read_u32_be 0) (\<lambda>props.
        andthen iter_error (\<lambda>err.
        if err \<noteq> TPM_SUCCESS then ret (err, Some False, Some 0) else
        if got = alg then ret (TPM_SUCCESS, Some True, Some props)
        else ret (TPM_SUCCESS, Some False, Some 0)))))))))"

section \<open>Iteration with a callback\<close>

fun algs_find_pages ::
  "nat \<Rightarrow> byte_order \<Rightarrow> tpm_chip_data option \<Rightarrow> u32 \<Rightarrow> u32 \<Rightarrow> 'c alg_cb option \<Rightarrow> u32 \<Rightarrow> u32 \<Rightarrow> u16 \<Rightarrow> bool \<Rightarrow> bool \<Rightarrow>
     'c \<Rightarrow> ('p tpm_lib, int \<times> 'c) op" where
  "algs_find_pages 0 bo chip mset mclr cb property parsed_count last_alg more_data found ctx =
     ret (TPM_ERR_ITERATION_LIMIT, ctx)"
| "algs_find_pages (Suc n) bo chip mset mclr cb property parsed_count last_alg more_data found ctx =
     andthen (getcap_raw bo chip TPM_CAP_ALGS property TPM_DEFAULT_PAGE_COUNT (Some zero_cmd) (Some more_data))
       (\<lambda>(rc, resp, more_data).
     if rc \<noteq> TPM_SUCCESS then ret (rc, ctx) else
     andthen (parse_algs_find bo resp mset mclr cb ctx (Some parsed_count) (Some last_alg) (Some found))
       (\<lambda>(rc, ctx, parsed_count, last_alg, found).
     if rc \<noteq> TPM_SUCCESS then ret (rc, ctx) else
     if the found then ret (TPM_SUCCESS, ctx) else
     if the more_data \<and> the parsed_count = 0 then ret (TPM_ERR_RESPONSE, ctx) else
     if the more_data
     then algs_find_pages n bo chip mset mclr cb (ucast (the last_alg) + 1) (the parsed_count)
            (the last_alg) (the more_data) (the found) ctx
     else ret (TPM_SUCCESS, ctx)))"

fun pcrs_find_pages ::
  "nat \<Rightarrow> byte_order \<Rightarrow> tpm_chip_data option \<Rightarrow> 'c pcr_cb option \<Rightarrow> u32 \<Rightarrow> u32 \<Rightarrow> u16 \<Rightarrow> bool \<Rightarrow> bool \<Rightarrow>
     'c \<Rightarrow> ('p tpm_lib, int \<times> 'c) op" where
  "pcrs_find_pages 0 bo chip cb property parsed_count last_hash more_data found ctx =
     ret (TPM_ERR_ITERATION_LIMIT, ctx)"
| "pcrs_find_pages (Suc n) bo chip cb property parsed_count last_hash more_data found ctx =
     andthen (getcap_raw bo chip TPM_CAP_PCRS property TPM_DEFAULT_PAGE_COUNT (Some zero_cmd) (Some more_data))
       (\<lambda>(rc, resp, more_data).
     if rc \<noteq> TPM_SUCCESS then ret (rc, ctx) else
     andthen (parse_pcrs_find bo resp cb ctx (Some parsed_count) (Some last_hash) (Some found))
       (\<lambda>(rc, ctx, parsed_count, last_hash, found).
     if rc \<noteq> TPM_SUCCESS then ret (rc, ctx) else
     if the found then ret (TPM_SUCCESS, ctx) else
     if the more_data \<and> the parsed_count = 0 then ret (TPM_ERR_RESPONSE, ctx) else
     if the more_data
     then pcrs_find_pages n bo chip cb (ucast (the last_hash) + 1) (the parsed_count)
            (the last_hash) (the more_data) (the found) ctx
     else ret (TPM_SUCCESS, ctx)))"

definition tpm_for_each_alg_props ::
  "byte_order \<Rightarrow> tpm_chip_data option \<Rightarrow> u32 \<Rightarrow> u32 \<Rightarrow> 'c alg_cb option \<Rightarrow> 'c \<Rightarrow> ('p tpm_lib, int \<times> 'c) op" where
  "tpm_for_each_alg_props bo chip must_set_mask must_clear_mask cb ctx =
     (if chip = None then ret (TPM_INVALID_PARAM, ctx) else
      case cb of
        None \<Rightarrow> ret (TPM_INVALID_PARAM, ctx)
      | Some _ \<Rightarrow> algs_find_pages TPM_MAX_PAGES bo chip must_set_mask must_clear_mask cb 0 0 0 False False ctx)"

definition tpm_for_each_pcr_bank ::
  "byte_order \<Rightarrow> tpm_chip_data option \<Rightarrow> 'c pcr_cb option \<Rightarrow> 'c \<Rightarrow> ('p tpm_lib, int \<times> 'c) op" where
  "tpm_for_each_pcr_bank bo chip cb ctx =
     (if chip = None then ret (TPM_INVALID_PARAM, ctx) else
      case cb of
        None \<Rightarrow> ret (TPM_INVALID_PARAM, ctx)
      | Some _ \<Rightarrow> pcrs_find_pages TPM_MAX_PAGES bo chip cb 0 0 0 False False ctx)"

section \<open>What one page exchange does\<close>

definition getcap_wire :: "u32 \<Rightarrow> u32 \<Rightarrow> u32 \<Rightarrow> byte list" where
  "getcap_wire cap prop n = wire TPM_ST_NO_SESSIONS TPM_CMD_GET_CAPABILITY (be32 cap @ be32 prop @ be32 n)"

text \<open>The response of a page, in the cleared buffer, and its more-data flag.\<close>

definition page_reply :: "byte_order \<Rightarrow> u16 \<Rightarrow> byte list \<Rightarrow> tpm_cmd \<Rightarrow> bool \<Rightarrow> reg_op list \<Rightarrow> bool" where
  "page_reply bo base w r more_data tr \<longleftrightarrow>
     (\<exists>hs ds. answered base w hs ds tr \<and> r = response bo zero_cmd hs ds \<and> more_data = (ds ! 0 \<noteq> 0) \<and>
        response_tag hs = TPM_ST_NO_SESSIONS \<and> response_code hs = TPM_RESPONSE_SUCCESS \<and>
        TPM_HEADER_SIZE < announced hs)"

definition page_asked ::
  "byte_order \<Rightarrow> u16 \<Rightarrow> byte list \<Rightarrow> int \<times> tpm_cmd option \<times> bool option \<Rightarrow> reg_op list \<Rightarrow> bool" where
  "page_asked bo base w = (\<lambda>(rc, resp, more_data) tr.
     if rc = TPM_SUCCESS then \<exists>r m. resp = Some r \<and> more_data = Some m \<and> page_reply bo base w r m tr
     else rc \<in> {TPM_ERR_RESPONSE, TPM_INVALID_PARAM, TPM_ERR_TIMEOUT, TPM_ERR_TRANSFER} \<and> attempted base w tr)"

lemma wf_page_reply: "page_reply bo base w r m tr \<Longrightarrow> wf_cmd r"
  by (auto simp: page_reply_def answered_def intro: wf_response)

lemma page_reply_attempted: "page_reply bo base w r m tr \<Longrightarrow> attempted base w tr"
  by (auto simp: page_reply_def dest: answered_attempted)

lemma getcap_adds:
  "wp False False (each (add_field bo) [(cap, 4), (prop, 4), (n, 4)])
    (\<lambda>_. built bo tg code (be32 cap @ be32 prop @ be32 n)) (tpm_cmd_init bo tg code)"
  using build_fields [of "[(cap, 4), (prop, 4), (n, 4)]" bo tg code]
  by (simp add: valid_field_def field_bytes_def)

lemma response_first: "0 < length ds \<Longrightarrow> data (response bo zero_cmd hs ds) ! 0 = ds ! 0"
  by (simp add: response_def overlay_def nth_append)

lemma traced_getcap_raw:
  assumes base: "base = LOCALITY_START_ADDRESS (locality chip)"
  shows "traced (getcap_raw bo (Some chip) cap prop n (Some r0) (Some m0))
    (page_asked bo base (getcap_wire cap prop n))"
  unfolding getcap_raw_def not_null if_False getcap_wire_def
proof (rule traced_command [OF base wf_zero_cmd getcap_adds], goal_cases)
  case (1 rc tr)
  then show ?case by (auto simp: page_asked_def io_code_def)
next
  case (2 rc resp tr)
  then show ?case by (auto simp: page_asked_def io_code_def)
next
  case (3 hs ds tr)
  have bad: "page_asked bo base (wire TPM_ST_NO_SESSIONS TPM_CMD_GET_CAPABILITY (be32 cap @ be32 prop @ be32 n))
      (TPM_ERR_RESPONSE, r, m) tr" for r m
    using answered_attempted [OF 3] by (simp add: page_asked_def)
  have big: "announced hs \<le> 256" and len: "announced hs \<le> 10 + length ds" and dl: "length ds \<le> 246"
    using 3 by (simp_all add: answered_def)
  have wf: "length (data (response bo zero_cmd hs ds)) = 246"
    using wf_response [OF wf_zero_cmd, of ds bo hs] dl by (simp add: wf_cmd_def)
  have good: "page_asked bo base (wire TPM_ST_NO_SESSIONS TPM_CMD_GET_CAPABILITY (be32 cap @ be32 prop @ be32 n))
      (TPM_SUCCESS, Some (response bo zero_cmd hs ds), Some (data (response bo zero_cmd hs ds) ! 0 \<noteq> 0)) tr"
    if "response_tag hs = TPM_ST_NO_SESSIONS" "response_code hs = 0" "\<not> announced hs < 11"
  proof -
    have first: "data (response bo zero_cmd hs ds) ! 0 = ds ! 0"
      by (rule response_first) (use that(3) len in linarith)
    have "page_reply bo base (wire TPM_ST_NO_SESSIONS TPM_CMD_GET_CAPABILITY (be32 cap @ be32 prop @ be32 n))
        (response bo zero_cmd hs ds) (ds ! 0 \<noteq> 0) tr"
      unfolding page_reply_def by (rule exI [of _ hs], rule exI [of _ ds]) (use 3 that in simp)
    then show ?thesis unfolding page_asked_def first by simp
  qed
  show ?case
    unfolding Let_def response_simps announced_def [symmetric]
    by (intro traced_if traced_array_get traced_ret)
      (use bad good big in \<open>simp_all del: TPM_SUCCESS_def TPM_ERR_RESPONSE_def TPM_ST_NO_SESSIONS_def TPM_CMD_GET_CAPABILITY_def\<close>)
qed

section \<open>Conversations\<close>

text \<open>
  A page as the host sees it: the first property asked for, the entries, the more-data flag,
  and whether all announced entries could be decoded. A conversation is a sequence of pages,
  each asked for and answered after the other; the first one starts at \<open>prop\<close>, the next one
  behind the last key seen. A page that is followed by another is complete and not empty, its
  more-data flag is set and \<open>go\<close> holds of its last key.
\<close>

record 'v cap_page =
  cp_property :: u32
  cp_entries :: "(u16 \<times> 'v) list"
  cp_more :: bool
  cp_whole :: bool

inductive paged ::
  "byte_order \<Rightarrow> (tpm_cmd \<Rightarrow> ((u16 \<times> 'v) list \<times> bool) option) \<Rightarrow> u32 \<Rightarrow> (u16 \<Rightarrow> bool) \<Rightarrow> u16 \<Rightarrow>
     u32 \<Rightarrow> 'v cap_page list \<Rightarrow> reg_op list \<Rightarrow> bool"
  for bo pg cap go base where
  final: "page_reply bo base (getcap_wire cap prop TPM_DEFAULT_PAGE_COUNT) r m tr \<Longrightarrow> pg r = Some (es, ok) \<Longrightarrow>
     paged bo pg cap go base prop [\<lparr>cp_property = prop, cp_entries = es, cp_more = m, cp_whole = ok\<rparr>] tr"
| further: "page_reply bo base (getcap_wire cap prop TPM_DEFAULT_PAGE_COUNT) r True tr \<Longrightarrow> pg r = Some (es, True) \<Longrightarrow>
     es \<noteq> [] \<Longrightarrow> go (last (map fst es)) \<Longrightarrow> paged bo pg cap go base (ucast (last (map fst es)) + 1) ps tr' \<Longrightarrow>
     paged bo pg cap go base prop
       (\<lparr>cp_property = prop, cp_entries = es, cp_more = True, cp_whole = True\<rparr> # ps) (tr @ tr')"

definition entries :: "'v cap_page list \<Rightarrow> (u16 \<times> 'v) list" where
  "entries ps = concat (map cp_entries ps)"

lemma entries_simps [simp]: "entries [] = []" "entries (p # ps) = cp_entries p @ entries ps"
  by (simp_all add: entries_def)

lemma paged_not_Nil: "paged bo pg cap go base prop ps tr \<Longrightarrow> ps \<noteq> []"
  by (induction rule: paged.induct) simp_all

text \<open>At most this many commands are started: the number of \<open>TPM_STAT_GO\<close> writes.\<close>

definition go_count :: "u16 \<Rightarrow> reg_op list \<Rightarrow> nat" where
  "go_count base tr = count_list (reg_writes tr) (status_addr base, TPM_STAT_GO)"

lemma go_count_append [simp]: "go_count base (tr @ tr') = go_count base tr + go_count base tr'"
  by (simp add: go_count_def)

lemma count_list_prefix: "prefix xs ys \<Longrightarrow> count_list xs a \<le> count_list ys a"
  by (auto simp: prefix_def)

lemma attempted_go_count:
  assumes "attempted base w tr"
  shows "go_count base tr \<le> 1"
proof -
  obtain pre where pre: "pre \<in> ready_writes base" "prefix (reg_writes tr) (pre @ script base w)"
    using assms by (auto simp: attempted_def)
  have "count_list (map (Pair (fifo_addr base)) w) (status_addr base, TPM_STAT_GO) = 0"
    using fifo_addr_distinct(3) [of base] by (intro count_notin) (auto simp del: TPM_STAT_GO_def)
  then have "count_list (pre @ script base w) (status_addr base, TPM_STAT_GO) = 1"
    using pre(1) by (auto simp: ready_writes_def script_def)
  with count_list_prefix [OF pre(2)] show ?thesis unfolding go_count_def by metis
qed

text \<open>The entries of a page are counted exactly: there are fewer than bytes in the buffer.\<close>

lemma length_decode_algs: "length (fst (decode_algs n bs)) \<le> length bs"
  by (induction n bs rule: decode_algs.induct) (auto split: prod.splits)

lemma length_decode_pcrs: "length (fst (decode_pcrs n bs)) \<le> length bs"
proof (induction n bs rule: decode_pcrs.induct)
  case (1 n a b k bs)
  then show ?case by (auto split: prod.splits)
qed auto

lemma length_payload: "wf_cmd r \<Longrightarrow> payload bo cap r = Some bs \<Longrightarrow> length bs \<le> 246"
  by (auto simp: payload_def wf_cmd_def Let_def split: if_splits)

lemma page_small:
  assumes "wf_cmd r" and "page dec cap bo r = Some (es, ok)" and "\<And>n bs. length (fst (dec n bs)) \<le> length bs"
  shows "length es \<le> 246"
proof -
  obtain a b c d bs where "payload bo cap r = Some (a # b # c # d # bs)"
    "dec (unat (of_be32 a b c d)) bs = (es, ok)"
    using assms(2) by (auto simp: page_def split: option.splits list.splits)
  moreover from length_payload [OF assms(1) this(1)] have "length bs \<le> 246" by simp
  ultimately show ?thesis using assms(3) [of "unat (of_be32 a b c d)" bs] by simp
qed

lemma count_zero: "length es \<le> 246 \<Longrightarrow> (of_nat (length es) :: u32) = 0 \<longleftrightarrow> es = []"
proof -
  assume "length es \<le> 246"
  then have "unat (of_nat (length es) :: u32) = length es" by (simp add: unsigned_of_nat take_bit_nat_eq_self)
  then have "(of_nat (length es) :: u32) = 0 \<longleftrightarrow> length es = 0" by (simp add: unat_eq_0 [symmetric])
  then show ?thesis by (simp only: length_0_conv)
qed

lemma alg_page_small: "wf_cmd r \<Longrightarrow> alg_page bo r = Some (es, ok) \<Longrightarrow> length es \<le> 246"
  unfolding alg_page_def by (rule page_small [OF _ _ length_decode_algs])

lemma pcr_page_small: "wf_cmd r \<Longrightarrow> pcr_page bo r = Some (es, ok) \<Longrightarrow> length es \<le> 246"
  unfolding pcr_page_def by (rule page_small [OF _ _ length_decode_pcrs])

section \<open>The page loops\<close>

definition page_codes :: "int set" where
  "page_codes = {TPM_SUCCESS, TPM_ERR_ITERATION_LIMIT, TPM_ERR_RESPONSE, TPM_INVALID_PARAM, TPM_ERR_TIMEOUT, TPM_ERR_TRANSFER}"

text \<open>
  A query loop has started at most \<open>n\<close> commands. The entries it has seen are applied to the
  query; if it succeeds they are those of a conversation that ends with a complete page after
  which the TPM has no more entries, or none that the query could name.
\<close>

definition query_end :: "u16 \<Rightarrow> 'v cap_page \<Rightarrow> bool" where
  "query_end mx p \<longleftrightarrow> cp_whole p \<and> (\<not> cp_more p \<or> cp_entries p \<noteq> [] \<and> \<not> last (map fst (cp_entries p)) < mx)"

definition pages_done ::
  "byte_order \<Rightarrow> (byte_order \<Rightarrow> tpm_cmd \<Rightarrow> ((u16 \<times> 'v) list \<times> bool) option) \<Rightarrow> u32 \<Rightarrow> (u16 \<times> 'v \<Rightarrow> 'q \<Rightarrow> 'q) \<Rightarrow> u16 \<Rightarrow>
     u16 \<Rightarrow> nat \<Rightarrow> u32 \<Rightarrow> 'q \<Rightarrow> int \<times> 'q \<Rightarrow> reg_op list \<Rightarrow> bool" where
  "pages_done bo pg cap upd mx base n prop q = (\<lambda>(rc, q') tr.
     go_count base tr \<le> n \<and> rc \<in> page_codes \<and>
     (if rc = TPM_SUCCESS
      then \<exists>ps. paged bo (pg bo) cap (\<lambda>k. k < mx) base prop ps tr \<and> query_end mx (last ps) \<and> q' = fold upd (entries ps) q
      else \<exists>es. q' = fold upd es q))"

lemma pages_failed:
  "go_count base tr \<le> n \<Longrightarrow> rc \<in> page_codes \<Longrightarrow> rc \<noteq> TPM_SUCCESS \<Longrightarrow> q' = fold upd es q \<Longrightarrow>
    pages_done bo pg cap upd mx base n prop q (rc, q') tr"
  by (auto simp: pages_done_def)

lemma pages_final:
  assumes "page_reply bo base (getcap_wire cap prop TPM_DEFAULT_PAGE_COUNT) r m tr" and "pg bo r = Some (es, True)"
    and "\<not> m \<or> es \<noteq> [] \<and> \<not> last (map fst es) < mx"
  shows "pages_done bo pg cap upd mx base (Suc n) prop q (TPM_SUCCESS, fold upd es q) tr"
proof -
  have "\<exists>ps. paged bo (pg bo) cap (\<lambda>k. k < mx) base prop ps tr \<and> query_end mx (last ps) \<and> fold upd es q = fold upd (entries ps) q"
    by (rule exI, rule conjI, rule paged.final [OF assms(1), where pg = "pg bo", OF assms(2)])
      (use assms(3) in \<open>simp add: query_end_def\<close>)
  with attempted_go_count [OF page_reply_attempted [OF assms(1)]] show ?thesis
    by (simp add: pages_done_def page_codes_def)
qed

lemma pages_further:
  assumes "page_reply bo base (getcap_wire cap prop TPM_DEFAULT_PAGE_COUNT) r True tr" and "pg bo r = Some (es, True)"
    and "es \<noteq> []" and "last (map fst es) < mx"
    and "pages_done bo pg cap upd mx base n (ucast (last (map fst es)) + 1) (fold upd es q) a tr'"
  shows "pages_done bo pg cap upd mx base (Suc n) prop q a (tr @ tr')"
proof -
  obtain rc q' where a: "a = (rc, q')" by (cases a)
  note rest = assms(5) [unfolded a pages_done_def prod.case]
  have go: "go_count base (tr @ tr') \<le> Suc n"
    using attempted_go_count [OF page_reply_attempted [OF assms(1)]] rest by simp
  show ?thesis
  proof (cases "rc = TPM_SUCCESS")
    case True
    then obtain ps where ps: "paged bo (pg bo) cap (\<lambda>k. k < mx) base (ucast (last (map fst es)) + 1) ps tr'"
      "query_end mx (last ps)" "q' = fold upd (entries ps) (fold upd es q)" using rest by auto
    let ?p = "\<lparr>cp_property = prop, cp_entries = es, cp_more = True, cp_whole = True\<rparr>"
    have "paged bo (pg bo) cap (\<lambda>k. k < mx) base prop (?p # ps) (tr @ tr')"
      using paged.further [where go = "\<lambda>k. k < mx" and pg = "pg bo", OF assms(1-4) ps(1)] .
    moreover have "query_end mx (last (?p # ps))" "q' = fold upd (entries (?p # ps)) q"
      using ps paged_not_Nil [OF ps(1)] by simp_all
    ultimately show ?thesis using go True unfolding a pages_done_def by (auto simp: page_codes_def simp del: entries_simps)
  next
    case False
    then obtain es' where "q' = fold upd (es @ es') q" using rest by auto
    then show ?thesis using go False rest unfolding a by (intro pages_failed [where es = "es @ es'"]) auto
  qed
qed

text \<open>A page is asked for, and either the exchange fails or the page is looked at.\<close>

lemma traced_page:
  assumes base: "base = LOCALITY_START_ADDRESS (locality chip)"
    and fails: "\<And>rc tr. rc \<noteq> TPM_SUCCESS \<Longrightarrow> rc \<in> page_codes \<Longrightarrow> attempted base (getcap_wire cap prop n) tr \<Longrightarrow> Q (e rc) tr"
    and works: "\<And>r m tr. page_reply bo base (getcap_wire cap prop n) r m tr \<Longrightarrow>
      traced (k (Some r) (Some m)) (\<lambda>b tr'. Q b (tr @ tr'))"
  shows "traced (andthen (getcap_raw bo (Some chip) cap prop n (Some r0) (Some m0)) (\<lambda>(rc, resp, m).
     if rc \<noteq> TPM_SUCCESS then ret (e rc) else k resp m)) Q"
proof (rule traced_andthen [OF traced_getcap_raw [OF base]], clarify, intro traced_if, goal_cases)
  case (1 rc resp m tr)
  then show ?case using fails [of rc tr] by (intro traced_ret) (auto simp: page_asked_def page_codes_def)
next
  case (2 rc resp m tr)
  then show ?case using works by (auto simp: page_asked_def)
qed

lemma attempted_small: "attempted base w tr \<Longrightarrow> go_count base tr \<le> Suc n"
  using attempted_go_count [of base w tr] by simp

text \<open>
  What the two query loops have in common: how they unfold, and that the parser they call
  refines the decoding of a page.
\<close>

locale page_query =
  fixes bo :: byte_order
    and cap :: u32
    and pg :: "byte_order \<Rightarrow> tpm_cmd \<Rightarrow> ((u16 \<times> 'v) list \<times> bool) option"
    and upd :: "u16 \<times> 'v \<Rightarrow> 'q \<Rightarrow> 'q"
    and valid_query :: "'q \<Rightarrow> bool"
    and parse :: "tpm_cmd option \<Rightarrow> 'q \<Rightarrow> u32 option \<Rightarrow> u16 option \<Rightarrow>
      ('p tpm_lib, int \<times> 'q \<times> u32 option \<times> u16 option) op"
    and pages :: "nat \<Rightarrow> tpm_chip_data option \<Rightarrow> u16 \<Rightarrow> u32 \<Rightarrow> u32 \<Rightarrow> u16 \<Rightarrow> bool \<Rightarrow> 'q \<Rightarrow> ('p tpm_lib, int \<times> 'q) op"
  assumes parse_law: "wf_cmd r \<Longrightarrow> valid_query q \<Longrightarrow> parse (Some r) q (Some c) (Some l) = ret (query_result upd (pg bo r) q c l)"
    and upd_valid: "valid_query q \<Longrightarrow> valid_query (upd e q)"
    and page_bound: "wf_cmd r \<Longrightarrow> pg bo r = Some (es, ok) \<Longrightarrow> length es \<le> 246"
    and pages_0: "pages 0 chip mx prop c l m q = ret (TPM_ERR_ITERATION_LIMIT, q)"
    and pages_Suc: "pages (Suc n) chip mx prop c l m q =
     andthen (getcap_raw bo chip cap prop TPM_DEFAULT_PAGE_COUNT (Some zero_cmd) (Some m)) (\<lambda>(rc, resp, m).
     if rc \<noteq> TPM_SUCCESS then ret (rc, q) else
     andthen (parse resp q (Some c) (Some l)) (\<lambda>(rc, q, c, l).
     if rc \<noteq> TPM_SUCCESS then ret (rc, q) else
     if the m \<and> the c = 0 then ret (TPM_ERR_RESPONSE, q) else
     if the m \<and> the l < mx then pages n chip mx (ucast (the l) + 1) (the c) (the l) (the m) q
     else ret (TPM_SUCCESS, q)))"
begin

lemma fold_valid: "valid_query q \<Longrightarrow> valid_query (fold upd es q)"
  by (induction es arbitrary: q) (auto intro: upd_valid)

text \<open>The rest of an iteration, after a page has arrived.\<close>

lemma after_page:
  assumes "wf_cmd r" and "valid_query q"
  shows "andthen (parse (Some r) q (Some c) (Some l)) (\<lambda>(rc, q, c, l).
     if rc \<noteq> TPM_SUCCESS then ret (rc, q) else
     if m \<and> the c = 0 then ret (TPM_ERR_RESPONSE, q) else
     if m \<and> the l < mx then pages n chip mx (ucast (the l) + 1) (the c) (the l) m q
     else ret (TPM_SUCCESS, q)) =
   (case pg bo r of
      Some (es, True) \<Rightarrow>
        if m \<and> es = [] then ret (TPM_ERR_RESPONSE, q) else
        if m \<and> last (map fst es) < mx
        then pages n chip mx (ucast (last (map fst es)) + 1) (of_nat (length es)) (last (map fst es)) m (fold upd es q)
        else ret (TPM_SUCCESS, fold upd es q)
    | Some (es, False) \<Rightarrow> ret (TPM_ERR_RESPONSE, fold upd es q)
    | None \<Rightarrow> ret (TPM_ERR_RESPONSE, q))"
  using page_bound [OF assms(1)]
  by (auto simp: parse_law [OF assms] query_result_def count_zero split: option.split bool.split)

lemma traced_full_page:
  assumes reply: "page_reply bo base (getcap_wire cap prop TPM_DEFAULT_PAGE_COUNT) r m tr" and pg: "pg bo r = Some (es, True)"
    and q: "valid_query q"
    and IH: "\<And>prop c l m q. valid_query q \<Longrightarrow>
      traced (pages n (Some chip) mx prop c l m q) (pages_done bo pg cap upd mx base n prop q)"
  shows "traced (if m \<and> es = [] then ret (TPM_ERR_RESPONSE, q) else
        if m \<and> last (map fst es) < mx
        then pages n (Some chip) mx (ucast (last (map fst es)) + 1) (of_nat (length es)) (last (map fst es)) m (fold upd es q)
        else ret (TPM_SUCCESS, fold upd es q)) (\<lambda>b tr'. pages_done bo pg cap upd mx base (Suc n) prop q b (tr @ tr'))"
proof (intro traced_if traced_ret, goal_cases)
  case 1
  show ?case
    by (intro pages_failed [where es = "[]"]) (simp_all add: attempted_small [OF page_reply_attempted [OF reply]] page_codes_def)
next
  case 2
  then have "es \<noteq> []" "m" "last (map fst es) < mx" by auto
  with reply pg show ?case
    by (intro traced_mono [OF IH [OF fold_valid [OF q]]]) (auto intro: pages_further)
next
  case 3
  then show ?case unfolding append_Nil2 by (intro pages_final [where pg = pg, OF reply pg]) auto
qed

lemma traced_pages:
  assumes base: "base = LOCALITY_START_ADDRESS (locality chip)" and "valid_query q"
  shows "traced (pages n (Some chip) mx prop c l m q) (pages_done bo pg cap upd mx base n prop q)"
  using assms(2)
proof (induction n arbitrary: "prop" c l m q)
  case 0
  show ?case
    unfolding pages_0 by (intro traced_ret pages_failed [where es = "[]"]) (simp_all add: go_count_def page_codes_def)
next
  case (Suc n)
  show ?case
    unfolding pages_Suc
  proof (rule traced_page [OF base], goal_cases)
    case (1 rc tr)
    then show ?case by (intro pages_failed [where es = "[]"]) (simp_all add: attempted_small)
  next
    case (2 r m tr)
    note go = attempted_small [OF page_reply_attempted [OF 2]]
    note page = after_page [OF wf_page_reply [OF 2] Suc.prems]
    consider "pg bo r = None" | es where "pg bo r = Some (es, False)" | es where "pg bo r = Some (es, True)"
      by (metis (full_types) option.exhaust surj_pair)
    then show ?case
    proof cases
      case 1
      show ?thesis
        unfolding option.sel page 1 option.case
        by (intro traced_ret pages_failed [where es = "[]"]) (simp_all add: go page_codes_def)
    next
      case (2 es)
      show ?thesis
        unfolding option.sel page 2 option.case prod.case bool.case
        by (intro traced_ret pages_failed [where es = es]) (simp_all add: go page_codes_def)
    next
      case (3 es)
      show ?thesis
        unfolding option.sel page 3 option.case prod.case bool.case
        by (rule traced_full_page [OF 2 3 Suc.prems Suc.IH])
    qed
  qed
qed

end

end
