(* ===== verification/TPM_Query.thy ===== *)
theory TPM_Query
  imports TPM_GetCap
begin

unbundle bit_operations_syntax

text \<open>
  The capability queries \<^verbatim>\<open>tpm_getcap_query_algs\<close>, \<^verbatim>\<open>tpm_getcap_query_pcrs\<close> and
  \<^verbatim>\<open>tpm_has_alg\<close>: both page loops interpret \<open>page_query\<close>, and with a TPM that lists its
  algorithms in order the answers are exactly the algorithms it has.
\<close>

interpretation algs: page_query bo TPM_CAP_ALGS alg_page alg_upd "terminated alg_id TPM_MAX_ALG_PROPERTIES"
  "parse_algs bo" "\<lambda>n. algs_pages n bo" for bo
proof (unfold_locales, goal_cases)
  case (1 r q c l)
  then show ?case by (rule parse_algs_refines)
next
  case (2 q e)
  then show ?case by (simp add: alg_upd_def terminated_mark_alg del: TPM_MAX_ALG_PROPERTIES_def)
next
  case (3 r es ok)
  then show ?case by (rule alg_page_small)
qed simp_all

interpretation pcrs: page_query bo TPM_CAP_PCRS pcr_page mark_pcr "terminated bq_hash_alg TPM_MAX_PCR_SELECTIONS"
  "parse_pcrs bo" "\<lambda>n. pcrs_pages n bo" for bo
proof (unfold_locales, goal_cases)
  case (1 r q c l)
  then show ?case by (rule parse_pcrs_refines)
next
  case (2 q e)
  then show ?case by (simp add: terminated_mark_pcr del: TPM_MAX_PCR_SELECTIONS_def)
next
  case (3 r es ok)
  then show ?case by (rule pcr_page_small)
qed simp_all

section \<open>Resetting the queries\<close>

text \<open>The keys of the queries before the terminator, and the largest of them.\<close>

definition keys :: "('q \<Rightarrow> u16) \<Rightarrow> 'q list \<Rightarrow> u16 list" where
  "keys key qs = map key (takeWhile (\<lambda>q. key q \<noteq> TPM_ALG_NULL) qs)"

definition max_key :: "('q \<Rightarrow> u16) \<Rightarrow> 'q list \<Rightarrow> u16" where
  "max_key key qs = fold max (keys key qs) 0"

lemma max_key_upper: "k \<in> set (keys key qs) \<Longrightarrow> k \<le> max_key key qs"
  unfolding max_key_def using Max.set_eq_fold [of 0 "keys key qs"] Max_ge [of "set (0 # keys key qs)" k] by simp

lemma max_step: "(if m < (a :: u16) then a else m) = max a m"
  by (auto simp: max_def)

lemma reset_algs_step:
  assumes "terminated alg_id n qs"
  shows "reset_algs n (length pre) (pre @ qs) mx =
    ret (True, pre @ upto_null alg_id (\<lambda>q. q\<lparr>enabled := False\<rparr>) qs, fold max (keys alg_id qs) mx,
      length pre + length (keys alg_id qs))"
  using assms
proof (induction qs arbitrary: n pre mx)
  case (Cons q qs)
  then obtain k where n: "n = Suc k" by (cases n) auto
  show ?case
  proof (cases "alg_id q = TPM_ALG_NULL")
    case True
    then show ?thesis by (simp add: n upto_null_Cons keys_def array_get_def)
  next
    case False
    then have "terminated alg_id k qs" using Cons.prems by (simp add: n terminated_Cons)
    from Cons.IH [OF this, of "pre @ [q\<lparr>enabled := False\<rparr>]" "max (alg_id q) mx"] False show ?thesis
      by (simp add: n upto_null_Cons keys_def array_get_def max_step)
  qed
qed simp

lemma three_zeros: "replicate 3 (0 :: byte) = [0, 0, 0]"
  by (simp add: numeral_3_eq_3)

lemma reset_pcrs_step:
  assumes "terminated bq_hash_alg n qs"
  shows "reset_pcrs n (length pre) (pre @ qs) mx =
    ret (True, pre @ upto_null bq_hash_alg (\<lambda>q. q\<lparr>bq_pcr_select := [0, 0, 0]\<rparr>) qs, fold max (keys bq_hash_alg qs) mx,
      length pre + length (keys bq_hash_alg qs))"
  using assms
proof (induction qs arbitrary: n pre mx)
  case (Cons q qs)
  then obtain k where n: "n = Suc k" by (cases n) auto
  show ?case
  proof (cases "bq_hash_alg q = TPM_ALG_NULL")
    case True
    then show ?thesis by (simp add: n upto_null_Cons keys_def array_get_def)
  next
    case False
    then have "terminated bq_hash_alg k qs" using Cons.prems by (simp add: n terminated_Cons)
    from Cons.IH [OF this, of "pre @ [q\<lparr>bq_pcr_select := [0, 0, 0]\<rparr>]" "max (bq_hash_alg q) mx"] False show ?thesis
      by (simp add: n upto_null_Cons keys_def array_get_def max_step three_zeros)
  qed
qed simp

lemma upto_null_reset_algs:
  "fold alg_upd es (upto_null alg_id (\<lambda>q. q\<lparr>enabled := False\<rparr>) qs) =
    upto_null alg_id (\<lambda>q. q\<lparr>enabled := alg_id q \<in> fst ` set es\<rparr>) qs"
  unfolding mark_algs_set by (subst upto_null_comp) (simp_all add: comp_def)

lemma upto_null_reset_pcrs:
  "fold mark_pcr es (upto_null bq_hash_alg (\<lambda>q. q\<lparr>bq_pcr_select := [0, 0, 0]\<rparr>) qs) =
    upto_null bq_hash_alg (\<lambda>q. q\<lparr>bq_pcr_select := last_mask es (bq_hash_alg q) [0, 0, 0]\<rparr>) qs"
  unfolding mark_pcrs_set by (subst upto_null_comp) (simp_all add: comp_def)

lemma reset_algs_spec:
  assumes "terminated alg_id TPM_MAX_ALG_PROPERTIES q"
  shows "reset_algs TPM_MAX_ALG_PROPERTIES 0 q 0 = ret (True, upto_null alg_id (\<lambda>q. q\<lparr>enabled := False\<rparr>) q,
    max_key alg_id q, length (keys alg_id q))"
  using reset_algs_step [OF assms, of "[]" 0] unfolding max_key_def by (simp del: TPM_MAX_ALG_PROPERTIES_def)

lemma reset_pcrs_spec:
  assumes "terminated bq_hash_alg TPM_MAX_PCR_SELECTIONS q"
  shows "reset_pcrs TPM_MAX_PCR_SELECTIONS 0 q 0 = ret (True, upto_null bq_hash_alg (\<lambda>q. q\<lparr>bq_pcr_select := [0, 0, 0]\<rparr>) q,
    max_key bq_hash_alg q, length (keys bq_hash_alg q))"
  using reset_pcrs_step [OF assms, of "[]" 0] unfolding max_key_def by (simp del: TPM_MAX_PCR_SELECTIONS_def)

lemma terminated_reset:
  "terminated alg_id n (upto_null alg_id (\<lambda>q. q\<lparr>enabled := False\<rparr>) qs) \<longleftrightarrow> terminated alg_id n qs"
  "terminated bq_hash_alg n (upto_null bq_hash_alg (\<lambda>q. q\<lparr>bq_pcr_select := sel\<rparr>) ps) \<longleftrightarrow> terminated bq_hash_alg n ps"
  by (subst terminated_upto_null, simp_all)+

section \<open>The queries\<close>

text \<open>
  A query of listed keys: no TPM access for an empty list; otherwise a conversation that
  starts at property 0 and ends when nothing more can be found, after at most
  \<open>TPM_MAX_PAGES\<close> commands. \<open>ans\<close> is the query answered by the entries seen.
\<close>

definition query_outcome ::
  "byte_order \<Rightarrow> (byte_order \<Rightarrow> tpm_cmd \<Rightarrow> ((u16 \<times> 'v) list \<times> bool) option) \<Rightarrow> u32 \<Rightarrow> u16 \<Rightarrow> ('q \<Rightarrow> u16) \<Rightarrow>
     ((u16 \<times> 'v) list \<Rightarrow> 'q list \<Rightarrow> 'q list) \<Rightarrow> 'q list \<Rightarrow> int \<times> 'q list option \<Rightarrow> reg_op list \<Rightarrow> bool" where
  "query_outcome bo pg cap base key ans q = (\<lambda>(rc, q') tr.
     go_count base tr \<le> TPM_MAX_PAGES \<and> rc \<in> page_codes \<and>
     (if keys key q = [] then rc = TPM_SUCCESS \<and> q' = Some q \<and> tr = []
      else if rc = TPM_SUCCESS
      then \<exists>ps. paged bo (pg bo) cap (\<lambda>k. k < max_key key q) base 0 ps tr \<and>
             query_end (max_key key q) (last ps) \<and> q' = Some (ans (entries ps) q)
      else \<exists>es. q' = Some (ans es q)))"

definition alg_answer :: "(u16 \<times> u32) list \<Rightarrow> tpm_alg_query_t list \<Rightarrow> tpm_alg_query_t list" where
  "alg_answer es = upto_null alg_id (\<lambda>q. q\<lparr>enabled := alg_id q \<in> fst ` set es\<rparr>)"

definition pcr_answer :: "(u16 \<times> byte list) list \<Rightarrow> tpm_pcr_bank_query_t list \<Rightarrow> tpm_pcr_bank_query_t list" where
  "pcr_answer es = upto_null bq_hash_alg (\<lambda>q. q\<lparr>bq_pcr_select := last_mask es (bq_hash_alg q) [0, 0, 0]\<rparr>)"

lemma upto_null_no_keys: "keys key q = [] \<Longrightarrow> upto_null key f q = q"
  by (cases q) (auto simp: keys_def upto_null_def)

lemma query_outcome_empty: "keys key q = [] \<Longrightarrow> query_outcome bo pg cap base key ans q (TPM_SUCCESS, Some q) []"
  by (simp add: query_outcome_def go_count_def page_codes_def)

lemma query_outcome_pages:
  assumes "keys key q \<noteq> []" and "\<And>es. fold upd es q0 = ans es q"
    and "pages_done bo pg cap upd (max_key key q) base TPM_MAX_PAGES 0 q0 (rc, q') tr"
  shows "query_outcome bo pg cap base key ans q (rc, Some q') tr"
  using assms(3) unfolding pages_done_def query_outcome_def prod.case assms(2)
  by (simp add: assms(1) del: TPM_SUCCESS_def)

lemma traced_query_algs:
  assumes base: "base = LOCALITY_START_ADDRESS (locality chip)" and q: "terminated alg_id TPM_MAX_ALG_PROPERTIES q"
  shows "traced (tpm_getcap_query_algs bo (Some chip) (Some q))
    (query_outcome bo alg_page TPM_CAP_ALGS base alg_id alg_answer q)"
  unfolding tpm_getcap_query_algs_def option.case reset_algs_spec [OF q] andthen_ret prod.case
proof (simp del: TPM_SUCCESS_def TPM_CAP_ALGS_def TPM_MAX_PAGES_def, intro conjI impI, goal_cases)
  case 1
  then show ?case by (auto simp only: upto_null_no_keys query_outcome_empty)
next
  case 2
  show ?case
    by (rule traced_andthen [OF algs.traced_pages [OF base terminated_reset(1) [THEN iffD2, OF q]]])
      (auto intro!: query_outcome_pages [OF 2] simp: upto_null_reset_algs alg_answer_def
        simp del: TPM_CAP_ALGS_def TPM_MAX_PAGES_def)
qed

lemma traced_query_pcrs:
  assumes base: "base = LOCALITY_START_ADDRESS (locality chip)" and q: "terminated bq_hash_alg TPM_MAX_PCR_SELECTIONS q"
  shows "traced (tpm_getcap_query_pcrs bo (Some chip) (Some q))
    (query_outcome bo pcr_page TPM_CAP_PCRS base bq_hash_alg pcr_answer q)"
  unfolding tpm_getcap_query_pcrs_def option.case reset_pcrs_spec [OF q] andthen_ret prod.case
proof (simp del: TPM_SUCCESS_def TPM_CAP_PCRS_def TPM_MAX_PAGES_def, intro conjI impI, goal_cases)
  case 1
  then show ?case by (auto simp only: upto_null_no_keys query_outcome_empty)
next
  case 2
  show ?case
    by (rule traced_andthen [OF pcrs.traced_pages [OF base terminated_reset(2) [THEN iffD2, OF q]]])
      (auto intro!: query_outcome_pages [OF 2] simp: upto_null_reset_pcrs pcr_answer_def
        simp del: TPM_CAP_PCRS_def TPM_MAX_PAGES_def)
qed

text \<open>Without a terminator in the first entries nothing is asked.\<close>

lemma reset_algs_unterminated:
  assumes "n \<le> length qs" and "\<not> terminated alg_id n qs"
  shows "\<exists>qs' mx' i. reset_algs n (length pre) (pre @ qs) mx = ret (False, qs', mx', i)"
  using assms
proof (induction n arbitrary: qs pre mx)
  case (Suc n)
  then obtain q qs' where qs: "qs = q # qs'" by (cases qs) auto
  with Suc.prems have "alg_id q \<noteq> TPM_ALG_NULL" "n \<le> length qs'" "\<not> terminated alg_id n qs'"
    by (simp_all add: terminated_Cons)
  with Suc.IH [of qs' "pre @ [q\<lparr>enabled := False\<rparr>]" "max (alg_id q) mx"] show ?case
    by (simp add: qs array_get_def max_step)
qed (simp, blast)

lemma reset_pcrs_unterminated:
  assumes "n \<le> length qs" and "\<not> terminated bq_hash_alg n qs"
  shows "\<exists>qs' mx' i. reset_pcrs n (length pre) (pre @ qs) mx = ret (False, qs', mx', i)"
  using assms
proof (induction n arbitrary: qs pre mx)
  case (Suc n)
  then obtain q qs' where qs: "qs = q # qs'" by (cases qs) auto
  with Suc.prems have "bq_hash_alg q \<noteq> TPM_ALG_NULL" "n \<le> length qs'" "\<not> terminated bq_hash_alg n qs'"
    by (simp_all add: terminated_Cons)
  with Suc.IH [of qs' "pre @ [q\<lparr>bq_pcr_select := [0, 0, 0]\<rparr>]" "max (bq_hash_alg q) mx"] show ?case
    by (simp add: qs array_get_def max_step three_zeros)
qed (simp, blast)

lemma query_algs_unterminated:
  assumes "TPM_MAX_ALG_PROPERTIES \<le> length q" and "\<not> terminated alg_id TPM_MAX_ALG_PROPERTIES q"
  shows "\<exists>q'. (tpm_getcap_query_algs bo (Some chip) (Some q) :: ('p tpm_lib, _) op) = ret (TPM_INVALID_PARAM, Some q')"
proof -
  obtain qs' mx' i where "(reset_algs TPM_MAX_ALG_PROPERTIES 0 q 0 :: ('p tpm_lib, _) op) = ret (False, qs', mx', i)"
    using reset_algs_unterminated [OF assms, of "[]" 0] unfolding append_Nil list.size by blast
  then show ?thesis by (auto simp: tpm_getcap_query_algs_def simp del: TPM_MAX_ALG_PROPERTIES_def)
qed

lemma query_pcrs_unterminated:
  assumes "TPM_MAX_PCR_SELECTIONS \<le> length q" and "\<not> terminated bq_hash_alg TPM_MAX_PCR_SELECTIONS q"
  shows "\<exists>q'. (tpm_getcap_query_pcrs bo (Some chip) (Some q) :: ('p tpm_lib, _) op) = ret (TPM_INVALID_PARAM, Some q')"
proof -
  obtain qs' mx' i where "(reset_pcrs TPM_MAX_PCR_SELECTIONS 0 q 0 :: ('p tpm_lib, _) op) = ret (False, qs', mx', i)"
    using reset_pcrs_unterminated [OF assms, of "[]" 0] unfolding append_Nil list.size by blast
  then show ?thesis by (auto simp: tpm_getcap_query_pcrs_def simp del: TPM_MAX_PCR_SELECTIONS_def)
qed

section \<open>A TPM that lists its entries in order\<close>

text \<open>
  A TPM has the entries \<open>L\<close>, in the order of their keys. An honest page holds the first of
  those that are not before the property asked for, at least one if there is one, and its
  more-data flag says whether there are others.
\<close>

definition honest_page :: "(u16 \<times> 'v) list \<Rightarrow> 'v cap_page \<Rightarrow> bool" where
  "honest_page L p \<longleftrightarrow> cp_whole p \<and>
     (\<exists>rest. filter (\<lambda>e. cp_property p \<le> ucast (fst e)) L = cp_entries p @ rest \<and>
        cp_more p = (rest \<noteq> []) \<and> (rest \<noteq> [] \<longrightarrow> cp_entries p \<noteq> []))"

definition ascending :: "(u16 \<times> 'v) list \<Rightarrow> bool" where
  "ascending L \<longleftrightarrow> sorted_wrt (<) (map fst L)"

lemma honest_sound: "honest_page L p \<Longrightarrow> set (cp_entries p) \<subseteq> set L"
  unfolding honest_page_def by (metis Un_subset_iff filter_is_subset set_append)

lemma honest_entries: "\<forall>p \<in> set ps. honest_page L p \<Longrightarrow> set (entries ps) \<subseteq> set L"
  by (induction ps) (auto dest!: honest_sound)

text \<open>What an honest page leaves out lies behind its last entry.\<close>

lemma honest_rest:
  assumes "honest_page L p" and "ascending L" and "e \<in> set L" and "cp_property p \<le> ucast (fst e)"
    and "e \<notin> set (cp_entries p)"
  shows "cp_more p \<and> cp_entries p \<noteq> [] \<and> last (map fst (cp_entries p)) < fst e"
proof -
  obtain rest where rest: "filter (\<lambda>e. cp_property p \<le> ucast (fst e)) L = cp_entries p @ rest"
    "cp_more p = (rest \<noteq> [])" "rest \<noteq> [] \<longrightarrow> cp_entries p \<noteq> []"
    using assms(1) by (auto simp: honest_page_def)
  have "e \<in> set (filter (\<lambda>e. cp_property p \<le> ucast (fst e)) L)" using assms(3,4) by simp
  with assms(5) have e: "e \<in> set rest" unfolding rest(1) by simp
  have "sorted_wrt (\<lambda>x y. fst x < fst y) (cp_entries p @ rest)"
    unfolding rest(1) [symmetric] using assms(2) by (auto simp: ascending_def sorted_wrt_map intro: sorted_wrt_filter)
  with e rest(2,3) show ?thesis by (auto simp: sorted_wrt_append last_map)
qed

lemma behind_iff: "ucast a + 1 \<le> (ucast b :: u32) \<longleftrightarrow> (a :: u16) < b"
proof -
  have "unat a < 2 ^ 16" using unsigned_less [of a] by simp
  moreover have "unat (ucast c :: u32) = unat c" for c :: u16 by (simp add: unsigned_ucast_eq)
  ultimately show ?thesis by (auto simp: word_le_nat_alt word_less_nat_alt unat_word_ariths)
qed

lemma paged_complete:
  assumes "paged bo pg cap (\<lambda>k. k < mx) base prop ps tr" and "\<forall>p \<in> set ps. honest_page L p" and "query_end mx (last ps)"
    and "ascending L" and "e \<in> set L" and "prop \<le> ucast (fst e)" and "fst e \<le> mx"
  shows "e \<in> set (entries ps)"
  using assms(1-3,6)
proof (induction rule: paged.induct)
  case (final p r m tr es ok)
  then show ?case using honest_rest [OF _ assms(4,5)] assms(7) by (force simp: query_end_def)
next
  case (further p r tr es ps tr')
  have "e \<in> set es \<or> last (map fst es) < fst e"
    using honest_rest [OF _ assms(4,5)] further.prems by force
  then show ?case using further paged_not_Nil [OF further.hyps(5)] by (auto simp: behind_iff)
qed


lemma paged_exact:
  assumes "paged bo pg cap (\<lambda>k. k < mx) base 0 ps tr" and "query_end mx (last ps)"
    and "\<forall>p \<in> set ps. honest_page L p" and "ascending L" and "k \<le> mx"
  shows "k \<in> fst ` set (entries ps) \<longleftrightarrow> k \<in> fst ` set L"
  using paged_complete [OF assms(1,3,2,4)] honest_entries [OF assms(3)] assms(5) by fastforce

section \<open>One algorithm\<close>

definition has_alg_outcome :: "byte_order \<Rightarrow> u16 \<Rightarrow> u16 \<Rightarrow> bool \<Rightarrow> int \<times> bool option \<Rightarrow> reg_op list \<Rightarrow> bool" where
  "has_alg_outcome bo base alg old = (\<lambda>(rc, supported) tr.
     go_count base tr \<le> TPM_MAX_PAGES \<and> rc \<in> page_codes \<and>
     (if rc = TPM_SUCCESS
      then \<exists>ps. paged bo (alg_page bo) TPM_CAP_ALGS (\<lambda>k. k < alg) base 0 ps tr \<and> query_end alg (last ps) \<and>
             supported = Some (alg \<in> fst ` set (entries ps))
      else supported = Some old))"

lemma one_query:
  assumes "alg \<noteq> TPM_ALG_NULL"
  defines "q \<equiv> [\<lparr>alg_id = alg, enabled = False\<rparr>, \<lparr>alg_id = TPM_ALG_NULL, enabled = False\<rparr>]"
  shows "keys alg_id q = [alg]" "max_key alg_id q = alg" "terminated alg_id TPM_MAX_ALG_PROPERTIES q"
    "alg_answer es q = [\<lparr>alg_id = alg, enabled = alg \<in> fst ` set es\<rparr>, \<lparr>alg_id = TPM_ALG_NULL, enabled = False\<rparr>]"
  using assms by (simp_all add: keys_def max_key_def terminated_def alg_answer_def upto_null_def max_def)

lemma traced_has_alg:
  assumes base: "base = LOCALITY_START_ADDRESS (locality chip)" and "alg \<noteq> TPM_ALG_NULL"
  shows "traced (tpm_has_alg bo (Some chip) alg (Some old)) (has_alg_outcome bo base alg old)"
proof -
  note q = one_query [OF assms(2)]
  have some: "(Some old = None) = False" by simp
  show ?thesis
    unfolding tpm_has_alg_def some if_False
  proof (rule traced_andthen [OF traced_query_algs [OF base q(3)]], clarify, intro traced_if traced_ret, goal_cases)
    case (1 rc item tr)
    then show ?case unfolding query_outcome_def has_alg_outcome_def prod.case q by simp
  next
    case (2 rc item tr)
    then obtain ps where ps: "paged bo (alg_page bo) TPM_CAP_ALGS (\<lambda>k. k < alg) base 0 ps tr"
      "query_end alg (last ps)" "go_count base tr \<le> TPM_MAX_PAGES"
      and item: "item = Some [\<lparr>alg_id = alg, enabled = alg \<in> fst ` set (entries ps)\<rparr>, \<lparr>alg_id = TPM_ALG_NULL, enabled = False\<rparr>]"
      unfolding query_outcome_def prod.case q by auto
    have "has_alg_outcome bo base alg old (TPM_SUCCESS, Some (alg \<in> fst ` set (entries ps))) tr"
      using ps unfolding has_alg_outcome_def by (auto simp: page_codes_def)
    then show ?case by (simp add: item array_get_def traced_ret)
  qed
qed

lemma has_alg_null:
  "tpm_has_alg bo (Some chip) TPM_ALG_NULL (Some old) = ret (TPM_SUCCESS, Some False)"
  by (simp add: tpm_has_alg_def tpm_getcap_query_algs_def array_get_def numeral_eq_Suc)

end
