(* ===== verification/TPM_Search.thy ===== *)
theory TPM_Search
  imports TPM_Query
begin

unbundle bit_operations_syntax

text \<open>
  The properties of one algorithm (\<^verbatim>\<open>tpm_get_alg_props\<close>) and the iterations with a callback
  (\<^verbatim>\<open>tpm_for_each_alg_props\<close>, \<^verbatim>\<open>tpm_for_each_pcr_bank\<close>). Both page loops interpret
  \<open>page_search\<close>: the callback sees the entries of all pages in order until it stops.
\<close>

section \<open>The properties of one algorithm\<close>

text \<open>The first entry of a page decides, whatever number of entries the page announces.\<close>

definition first_alg :: "byte_order \<Rightarrow> tpm_cmd \<Rightarrow> ((u16 \<times> u32) list \<times> bool) option" where
  "first_alg = page (\<lambda>_. decode_algs 1) TPM_CAP_ALGS"

definition props_result :: "byte_order \<Rightarrow> u16 \<Rightarrow> tpm_cmd \<Rightarrow> int \<times> bool option \<times> u32 option" where
  "props_result bo alg r =
     (case first_alg bo r of
        Some ([(a, p)], True) \<Rightarrow> (TPM_SUCCESS, Some (a = alg), Some (if a = alg then p else 0))
      | _ \<Rightarrow> (TPM_ERR_RESPONSE, Some False, Some 0))"

lemma short_of_mono: "short_of n s \<Longrightarrow> n \<le> m \<Longrightarrow> short_of m s"
  unfolding short_of_def by (meson less_le_trans)

lemma props_refines:
  assumes "wf_cmd r"
  shows "with_local iter_zero (
        andthen (getcap_payload_start bo (Some r) TPM_CAP_ALGS) (\<lambda>rc.
        if rc \<noteq> TPM_SUCCESS then ret (rc, Some False, Some 0) else
        andthen (into iter_read_u32_be 0) (\<lambda>count.
        andthen (into iter_read_u16_be TPM_ALG_NULL) (\<lambda>got.
        andthen (into iter_read_u32_be 0) (\<lambda>props.
        andthen iter_error (\<lambda>err.
        if err \<noteq> TPM_SUCCESS then ret (err, Some False, Some 0) else
        if got = alg then ret (TPM_SUCCESS, Some True, Some props)
        else ret (TPM_SUCCESS, Some False, Some 0))))))) = ret (props_result bo alg r)"
proof (rule with_local_ret, rule page_head [OF assms, where dec = "\<lambda>_. decode_algs 1"], goal_cases)
  case (1 t)
  then show ?case by (simp add: props_result_def first_alg_def)
next
  case (2 t)
  then show ?case
    by (intro alg_entry_short) (auto simp: props_result_def first_alg_def wp_simps elim: short_of_mono)
next
  case (3 n bs t)
  show ?case
  proof (cases "length bs < 6")
    case True
    then have "decode_algs 1 bs = ([], False)" using decode_algs_short [of bs 0] by simp
    moreover have "short_of 6 t" using 3 True by (simp add: short_of_def)
    ultimately show ?thesis
      by (intro alg_entry_short) (use 3 in \<open>auto simp: props_result_def first_alg_def wp_simps\<close>)
  next
    case False
    then obtain a b c d e f ys where bs: "bs = a # b # c # d # e # f # ys" using list_of_6 by blast
    show ?thesis
      by (rule alg_entry_ok [OF 3(2) 3(3) [unfolded bs]]) (use 3(1) in \<open>auto simp: props_result_def first_alg_def wp_simps bs\<close>)
  qed
qed

text \<open>An empty list, the answer about an algorithm behind the last one the TPM has, is taken for an error.\<close>

lemma props_of_empty_list:
  "props_result bo alg (cap_response bo m TPM_CAP_ALGS 0 []) = (TPM_ERR_RESPONSE, Some False, Some 0)"
  using page_cap_response [of "[]" 0 "\<lambda>_. decode_algs 1" TPM_CAP_ALGS bo m]
  by (simp add: props_result_def first_alg_def decode_algs_short [of "[]" 0, simplified])

definition get_props_outcome ::
  "byte_order \<Rightarrow> u16 \<Rightarrow> u16 \<Rightarrow> bool \<Rightarrow> u32 \<Rightarrow> int \<times> bool option \<times> u32 option \<Rightarrow> reg_op list \<Rightarrow> bool" where
  "get_props_outcome bo base alg old old_props res tr \<longleftrightarrow>
     (let w = getcap_wire TPM_CAP_ALGS (ucast alg) 1 in
      (\<exists>r m. page_reply bo base w r m tr \<and> res = props_result bo alg r) \<or>
      (attempted base w tr \<and> (\<exists>rc \<in> page_codes. rc < 0 \<and> res = (rc, Some old, Some old_props))))"

lemma traced_get_alg_props:
  assumes base: "base = LOCALITY_START_ADDRESS (locality chip)"
  shows "traced (tpm_get_alg_props bo (Some chip) alg (Some old) (Some old_props)) (get_props_outcome bo base alg old old_props)"
  unfolding tpm_get_alg_props_def not_null if_False
proof (rule traced_page [OF base], goal_cases)
  case (1 rc tr)
  then show ?case by (auto simp: get_props_outcome_def Let_def page_codes_def)
next
  case (2 r m tr)
  show ?case
    unfolding props_refines [OF wf_page_reply [OF 2]]
    by (intro traced_ret) (use 2 in \<open>auto simp: get_props_outcome_def Let_def\<close>)
qed

section \<open>Iteration\<close>

lemma visit_append:
  "visit f (es @ es') c =
    (case visit f es c of (n, hit, x) \<Rightarrow>
       if hit then (n, hit, x) else (case visit f es' x of (n', r) \<Rightarrow> (length es + n', r)))"
  by (induction es arbitrary: c) (auto simp: Let_def split: prod.splits)

lemma visit_length: "visit f es c = (n, hit, x) \<Longrightarrow> n \<le> length es \<and> (\<not> hit \<longrightarrow> n = length es)"
  by (induction es arbitrary: c n hit x) (auto simp: Let_def split: prod.splits if_splits)

text \<open>
  The callback has seen every entry of the conversation, or it has stopped within the last
  page.
\<close>

definition search_end :: "(u16 \<times> 'v \<Rightarrow> 'c \<Rightarrow> bool \<times> 'c) \<Rightarrow> 'c \<Rightarrow> 'v cap_page list \<Rightarrow> 'c \<Rightarrow> bool" where
  "search_end f ctx ps ctx' \<longleftrightarrow>
     (case visit f (entries ps) ctx of (n, hit, x) \<Rightarrow>
        ctx' = x \<and> (if hit then length (entries (butlast ps)) < n else cp_whole (last ps) \<and> \<not> cp_more (last ps)))"

definition search_done ::
  "byte_order \<Rightarrow> (byte_order \<Rightarrow> tpm_cmd \<Rightarrow> ((u16 \<times> 'v) list \<times> bool) option) \<Rightarrow> u32 \<Rightarrow> (u16 \<times> 'v \<Rightarrow> 'c \<Rightarrow> bool \<times> 'c) \<Rightarrow>
     u16 \<Rightarrow> nat \<Rightarrow> u32 \<Rightarrow> 'c \<Rightarrow> int \<times> 'c \<Rightarrow> reg_op list \<Rightarrow> bool" where
  "search_done bo pg cap f base n prop ctx = (\<lambda>(rc, ctx') tr.
     go_count base tr \<le> n \<and> rc \<in> page_codes \<and>
     (if rc = TPM_SUCCESS
      then \<exists>ps. paged bo (pg bo) cap (\<lambda>_. True) base prop ps tr \<and> search_end f ctx ps ctx'
      else \<exists>es. ctx' = snd (snd (visit f es ctx))))"

lemma search_failed:
  "go_count base tr \<le> n \<Longrightarrow> rc \<in> page_codes \<Longrightarrow> rc \<noteq> TPM_SUCCESS \<Longrightarrow> ctx' = snd (snd (visit f es ctx)) \<Longrightarrow>
    search_done bo pg cap f base n prop ctx (rc, ctx') tr"
  by (auto simp: search_done_def)

lemma visit_pos: "visit f es c = (n, True, x) \<Longrightarrow> 0 < n"
  by (cases es) (auto simp: Let_def split: prod.splits if_splits)

lemma search_final:
  assumes "page_reply bo base (getcap_wire cap prop TPM_DEFAULT_PAGE_COUNT) r m tr" and "pg bo r = Some (es, ok)"
    and "visit f es ctx = (k, hit, x)" and "hit \<or> ok \<and> \<not> m"
  shows "search_done bo pg cap f base (Suc n) prop ctx (TPM_SUCCESS, x) tr"
proof -
  have "\<exists>ps. paged bo (pg bo) cap (\<lambda>_. True) base prop ps tr \<and> search_end f ctx ps x"
    by (rule exI, rule conjI, rule paged.final [OF assms(1), where pg = "pg bo", OF assms(2)])
      (use assms(3,4) visit_pos [of f es ctx k x] in \<open>auto simp: search_end_def\<close>)
  with attempted_go_count [OF page_reply_attempted [OF assms(1)]] show ?thesis
    by (simp add: search_done_def page_codes_def)
qed

lemma search_end_Cons:
  assumes "ps \<noteq> []" and "visit f (cp_entries p) ctx = (k, False, x)" and "search_end f x ps ctx'"
  shows "search_end f ctx (p # ps) ctx'"
  using assms by (auto simp: search_end_def visit_append split: prod.splits if_splits)

lemma search_further:
  assumes "page_reply bo base (getcap_wire cap prop TPM_DEFAULT_PAGE_COUNT) r True tr" and "pg bo r = Some (es, True)"
    and "es \<noteq> []" and v: "visit f es ctx = (k, False, x)"
    and "search_done bo pg cap f base n (ucast (last (map fst es)) + 1) x a tr'"
  shows "search_done bo pg cap f base (Suc n) prop ctx a (tr @ tr')"
proof -
  obtain rc ctx' where a: "a = (rc, ctx')" by (cases a)
  note rest = assms(5) [unfolded a search_done_def prod.case]
  have go: "go_count base (tr @ tr') \<le> Suc n"
    using attempted_go_count [OF page_reply_attempted [OF assms(1)]] rest by simp
  show ?thesis
  proof (cases "rc = TPM_SUCCESS")
    case True
    then obtain ps where ps: "paged bo (pg bo) cap (\<lambda>_. True) base (ucast (last (map fst es)) + 1) ps tr'"
      "search_end f x ps ctx'" using rest by auto
    let ?p = "\<lparr>cp_property = prop, cp_entries = es, cp_more = True, cp_whole = True\<rparr>"
    have "paged bo (pg bo) cap (\<lambda>_. True) base prop (?p # ps) (tr @ tr')"
      using paged.further [where go = "\<lambda>_. True" and pg = "pg bo", OF assms(1-3) _ ps(1)] by simp
    moreover have "search_end f ctx (?p # ps) ctx'"
      using search_end_Cons [OF paged_not_Nil [OF ps(1)] _ ps(2), of ?p] v by simp
    ultimately show ?thesis using go True unfolding a search_done_def by (auto simp: page_codes_def)
  next
    case False
    then obtain es' where "ctx' = snd (snd (visit f es' x))" using rest by auto
    with v have "ctx' = snd (snd (visit f (es @ es') ctx))" by (simp add: visit_append split: prod.splits)
    then show ?thesis using go False rest unfolding a by (intro search_failed [where es = "es @ es'"]) auto
  qed
qed

text \<open>What the two iterations have in common.\<close>

locale page_search =
  fixes bo :: byte_order
    and cap :: u32
    and pg :: "byte_order \<Rightarrow> tpm_cmd \<Rightarrow> ((u16 \<times> 'v) list \<times> bool) option"
    and f :: "u16 \<times> 'v \<Rightarrow> 'c \<Rightarrow> bool \<times> 'c"
    and find_in :: "tpm_cmd option \<Rightarrow> 'c \<Rightarrow> u32 option \<Rightarrow> u16 option \<Rightarrow> bool option \<Rightarrow>
      ('p tpm_lib, int \<times> 'c \<times> u32 option \<times> u16 option \<times> bool option) op"
    and pages :: "nat \<Rightarrow> tpm_chip_data option \<Rightarrow> u32 \<Rightarrow> u32 \<Rightarrow> u16 \<Rightarrow> bool \<Rightarrow> bool \<Rightarrow> 'c \<Rightarrow> ('p tpm_lib, int \<times> 'c) op"
  assumes find_law: "wf_cmd r \<Longrightarrow>
      \<exists>res. find_in (Some r) ctx (Some c) (Some l) (Some fd) = ret res \<and> found_result (pg bo r) fst f ctx l res"
    and page_bound: "wf_cmd r \<Longrightarrow> pg bo r = Some (es, ok) \<Longrightarrow> length es \<le> 246"
    and pages_0: "pages 0 chip prop c l m fd ctx = ret (TPM_ERR_ITERATION_LIMIT, ctx)"
    and pages_Suc: "pages (Suc n) chip prop c l m fd ctx =
     andthen (getcap_raw bo chip cap prop TPM_DEFAULT_PAGE_COUNT (Some zero_cmd) (Some m)) (\<lambda>(rc, resp, m).
     if rc \<noteq> TPM_SUCCESS then ret (rc, ctx) else
     andthen (find_in resp ctx (Some c) (Some l) (Some fd)) (\<lambda>(rc, ctx, c, l, fd).
     if rc \<noteq> TPM_SUCCESS then ret (rc, ctx) else
     if the fd then ret (TPM_SUCCESS, ctx) else
     if the m \<and> the c = 0 then ret (TPM_ERR_RESPONSE, ctx) else
     if the m then pages n chip (ucast (the l) + 1) (the c) (the l) (the m) (the fd) ctx
     else ret (TPM_SUCCESS, ctx)))"
begin

text \<open>The rest of an iteration, after a page has arrived.\<close>

lemma after_page:
  assumes "wf_cmd r"
  shows "andthen (find_in (Some r) ctx (Some c) (Some l) (Some fd)) (\<lambda>(rc, ctx, c, l, fd).
     if rc \<noteq> TPM_SUCCESS then ret (rc, ctx) else
     if the fd then ret (TPM_SUCCESS, ctx) else
     if m \<and> the c = 0 then ret (TPM_ERR_RESPONSE, ctx) else
     if m then pages n chip (ucast (the l) + 1) (the c) (the l) m (the fd) ctx
     else ret (TPM_SUCCESS, ctx)) =
   (case pg bo r of
      None \<Rightarrow> ret (TPM_ERR_RESPONSE, ctx)
    | Some (es, ok) \<Rightarrow>
        (case visit f es ctx of (k, hit, x) \<Rightarrow>
           if hit then ret (TPM_SUCCESS, x) else
           if \<not> ok \<or> m \<and> es = [] then ret (TPM_ERR_RESPONSE, x) else
           if m then pages n chip (ucast (last (map fst es)) + 1) (of_nat (length es)) (last (map fst es)) m False x
           else ret (TPM_SUCCESS, x)))"
proof -
  obtain rc ctx' c' l' fd' where res: "find_in (Some r) ctx (Some c) (Some l) (Some fd) = ret (rc, ctx', c', l', fd')"
    and found: "found_result (pg bo r) fst f ctx l (rc, ctx', c', l', fd')"
    using find_law [OF assms] by (metis surj_pair)
  show ?thesis
  proof (cases "pg bo r")
    case None
    with found show ?thesis by (simp add: res found_result_def)
  next
    case (Some p)
    obtain es ok where p: "p = (es, ok)" by (cases p)
    obtain k hit x where v: "visit f es ctx = (k, hit, x)" by (cases "visit f es ctx") auto
    have "length es \<le> 246" using page_bound [OF assms] Some p by blast
    with found visit_length [OF v] show ?thesis
      by (cases hit; cases ok) (auto simp: res found_result_def Some p v count_zero)
  qed
qed

lemma traced_visited_page:
  assumes reply: "page_reply bo base (getcap_wire cap prop TPM_DEFAULT_PAGE_COUNT) r m tr" and pg: "pg bo r = Some (es, ok)"
    and v: "visit f es ctx = (k, hit, x)"
    and IH: "\<And>prop c l m fd ctx. traced (pages n (Some chip) prop c l m fd ctx) (search_done bo pg cap f base n prop ctx)"
  shows "traced (if hit then ret (TPM_SUCCESS, x) else
           if \<not> ok \<or> m \<and> es = [] then ret (TPM_ERR_RESPONSE, x) else
           if m then pages n (Some chip) (ucast (last (map fst es)) + 1) (of_nat (length es)) (last (map fst es)) m False x
           else ret (TPM_SUCCESS, x)) (\<lambda>b tr'. search_done bo pg cap f base (Suc n) prop ctx b (tr @ tr'))"
proof (intro traced_if traced_ret, goal_cases)
  case 2
  then show ?case
    by (intro search_failed [where es = es]) (simp_all add: attempted_small [OF page_reply_attempted [OF reply]] page_codes_def v)
next
  case 3
  then have "search_done bo pg cap f base (Suc n) prop ctx a (tr @ tr')"
    if "search_done bo pg cap f base n (ucast (last (map fst es)) + 1) x a tr'" for a tr'
    using search_further [where pg = pg and f = f and es = es] reply pg v that by auto
  then show ?case by (intro traced_mono [OF IH])
qed (simp_all add: search_final [where pg = pg, OF reply pg v] del: TPM_SUCCESS_def)

lemma traced_pages:
  assumes base: "base = LOCALITY_START_ADDRESS (locality chip)"
  shows "traced (pages n (Some chip) prop c l m fd ctx) (search_done bo pg cap f base n prop ctx)"
proof (induction n arbitrary: "prop" c l m fd ctx)
  case 0
  show ?case
    unfolding pages_0 by (intro traced_ret search_failed [where es = "[]"]) (simp_all add: go_count_def page_codes_def)
next
  case (Suc n)
  show ?case
    unfolding pages_Suc
  proof (rule traced_page [OF base], goal_cases)
    case (1 rc tr)
    then show ?case by (intro search_failed [where es = "[]"]) (simp_all add: attempted_small)
  next
    case (2 r m tr)
    note go = attempted_small [OF page_reply_attempted [OF 2]]
    note page = after_page [OF wf_page_reply [OF 2]]
    show ?case
    proof (cases "pg bo r")
      case None
      show ?thesis
        unfolding option.sel page None option.case
        by (intro traced_ret search_failed [where es = "[]"]) (simp_all add: go page_codes_def)
    next
      case (Some p)
      obtain es ok where p: "p = (es, ok)" by (cases p)
      obtain k hit x where v: "visit f es ctx = (k, hit, x)" by (cases "visit f es ctx") auto
      show ?thesis
        unfolding option.sel page Some p option.case prod.case v
        by (rule traced_visited_page [OF 2 Some [unfolded p] v Suc.IH])
    qed
  qed
qed

end

interpretation alg_search: page_search bo TPM_CAP_ALGS alg_page "alg_visitor mset mclr cb"
  "\<lambda>r. parse_algs_find bo r mset mclr (Some cb)" "\<lambda>n chip. algs_find_pages n bo chip mset mclr (Some cb)"
  for bo mset mclr cb
proof (unfold_locales, goal_cases)
  case (1 r ctx c l fd)
  then show ?case by (rule parse_algs_find_refines)
next
  case (2 r es ok)
  then show ?case by (rule alg_page_small)
qed simp_all

interpretation pcr_search: page_search bo TPM_CAP_PCRS pcr_page "pcr_visitor cb"
  "\<lambda>r. parse_pcrs_find bo r (Some cb)" "\<lambda>n chip. pcrs_find_pages n bo chip (Some cb)"
  for bo cb
proof (unfold_locales, goal_cases)
  case (1 r ctx c l fd)
  then show ?case by (rule parse_pcrs_find_refines)
next
  case (2 r es ok)
  then show ?case by (rule pcr_page_small)
qed simp_all

lemma traced_for_each_alg:
  assumes "base = LOCALITY_START_ADDRESS (locality chip)"
  shows "traced (tpm_for_each_alg_props bo (Some chip) mset mclr (Some cb) ctx)
    (search_done bo alg_page TPM_CAP_ALGS (alg_visitor mset mclr cb) base TPM_MAX_PAGES 0 ctx)"
  unfolding tpm_for_each_alg_props_def using alg_search.traced_pages [OF assms] by simp

lemma traced_for_each_pcr:
  assumes "base = LOCALITY_START_ADDRESS (locality chip)"
  shows "traced (tpm_for_each_pcr_bank bo (Some chip) (Some cb) ctx)
    (search_done bo pcr_page TPM_CAP_PCRS (pcr_visitor cb) base TPM_MAX_PAGES 0 ctx)"
  unfolding tpm_for_each_pcr_bank_def using pcr_search.traced_pages [OF assms] by simp

section \<open>Iteration over a TPM that lists its entries in order\<close>

lemma honest_next:
  fixes p :: u32
  assumes "ascending L" and "filter (\<lambda>e. p \<le> ucast (fst e)) L = es @ rest" and "es \<noteq> []"
  shows "filter (\<lambda>e. ucast (last (map fst es)) + 1 \<le> (ucast (fst e) :: u32)) L = rest"
proof -
  let ?k = "last (map fst es)"
  have "sorted_wrt (\<lambda>x y. fst x < fst y) (es @ rest)"
    unfolding assms(2) [symmetric] using assms(1) by (auto simp: ascending_def sorted_wrt_map intro: sorted_wrt_filter)
  then have srt: "sorted_wrt (\<lambda>x y. fst x < fst y) es" "\<forall>e \<in> set rest. ?k < fst e"
    using assms(3) by (auto simp: sorted_wrt_append last_map)
  have "\<not> ?k < fst e" if "e \<in> set es" for e
    using that srt(1) assms(3) by (induction es) (auto simp: last_map split: if_splits dest: less_asym)
  moreover have "p \<le> ucast (fst e)" if "?k < fst e" for e :: "u16 \<times> 'a"
  proof -
    have "last es \<in> set (filter (\<lambda>e. p \<le> ucast (fst e)) L)" using assms(2,3) by simp
    then have "p \<le> ucast ?k" using assms(3) by (simp add: last_map)
    moreover have "ucast ?k \<le> (ucast (fst e) :: u32)"
      using that by (simp add: word_le_nat_alt word_less_nat_alt unsigned_ucast_eq)
    ultimately show ?thesis by (rule order_trans)
  qed
  then have "filter (\<lambda>e. ucast ?k + 1 \<le> (ucast (fst e) :: u32)) L = filter (\<lambda>e. ?k < fst e) (es @ rest)"
    unfolding assms(2) [symmetric] filter_filter behind_iff by (intro filter_cong) auto
  ultimately show ?thesis using srt(2) by simp
qed

lemma paged_entries:
  assumes "paged bo pg cap go base prop ps tr" and "\<forall>p \<in> set ps. honest_page L p" and "ascending L"
  shows "\<exists>rest. filter (\<lambda>e. prop \<le> ucast (fst e)) L = entries ps @ rest \<and> (rest \<noteq> [] \<longrightarrow> cp_more (last ps))"
  using assms(1,2)
proof (induction rule: paged.induct)
  case (final p r m tr es ok)
  then show ?case by (auto simp: honest_page_def)
next
  case (further p r tr es ps tr')
  then obtain rest where rest: "filter (\<lambda>e. p \<le> ucast (fst e)) L = es @ rest" by (auto simp: honest_page_def)
  from further obtain rest' where "filter (\<lambda>e. ucast (last (map fst es)) + 1 \<le> (ucast (fst e) :: u32)) L = entries ps @ rest'"
    "rest' \<noteq> [] \<longrightarrow> cp_more (last ps)" by auto
  with rest honest_next [OF assms(3) rest further.hyps(3)] paged_not_Nil [OF further.hyps(5)] show ?case by auto
qed

text \<open>The callback sees the list of the TPM, up to where it stops.\<close>

lemma search_exact:
  assumes "paged bo pg cap go base 0 ps tr" and "search_end f ctx ps ctx'" and "\<forall>p \<in> set ps. honest_page L p"
    and "ascending L"
  shows "ctx' = snd (snd (visit f L ctx))"
proof -
  obtain rest where "L = entries ps @ rest" "rest \<noteq> [] \<longrightarrow> cp_more (last ps)"
    using paged_entries [OF assms(1,3,4)] by auto
  with assms(2) show ?thesis by (cases "rest = []") (auto simp: search_end_def visit_append split: prod.splits if_splits)
qed

end
