(* ===== verification/TPM_Run.thy ===== *)
theory TPM_Run
  imports TPM_Sim TPM_Search
begin

unbundle bit_operations_syntax

text \<open>
  Complete runs on the scripted platform of \<open>TPM_Sim\<close>: a command goes out, its response comes
  back, and the client has its answer.
\<close>

section \<open>Sending\<close>

lemma sim_write_fifo: "write_fifo_bytes base bs (sim rs t) = Some (Inr (0, sim rs t))"
  by (induction bs) (simp_all add: ret_def andthen_def)

lemma sim_send_burst:
  "TPM_HEADER_SIZE \<le> i \<Longrightarrow> i + n = len \<Longrightarrow> len \<le> TPM_HEADER_SIZE + length bs \<Longrightarrow>
    send_burst n base bs len i (sim rs t) = Some (Inr ((0, len), sim rs t))"
  by (induction n arbitrary: i) (auto simp: ret_def andthen_def array_get_def)

lemma sim_send:
  assumes "wf_cmd cmd" and n: "unat (be32toh bo (cmd_size (header cmd))) = 10 + n" "0 < n" "n \<le> 246"
    and tm: "timeouts chip = Some tm" and "t < 10 ^ 9"
  shows "tpm2_fifo_send bo (Some chip) cmd (sim (0x40 # of_nat n # 0 # 0x80 # rest) t) = Some (Inr (0, sim rest (t + 2)))"
proof -
  have t: "min t end_of_time = t" "min (Suc t) end_of_time = Suc t" using assms(6) by (simp_all add: end_of_time_def)
  have un: "unat (of_nat n :: byte) = n" "unat (of_nat n :: u16) = n"
    using n(3) by (simp_all add: unsigned_of_nat take_bit_nat_eq_self)
  have b: "push_bit 8 (ucast (0 :: byte)) + ucast (of_nat n :: byte) = (of_nat n :: u16)"
    using un by (simp add: word_unat_eq_iff unsigned_ucast_eq)
  have nz: "(of_nat n :: u16) \<noteq> 0" using un(2) n(2) by (metis less_irrefl unsigned_0)
  have len: "length (data cmd) = 246" using assms(1) by (simp add: wf_cmd_def)
  let ?body = "send_body (Some chip) (LOCALITY_START_ADDRESS (locality chip)) (data cmd) (10 + n)"
  have "loop ?body 10 (sim (of_nat n # 0 # 0x80 # rest) t) = Some (Inr (0, sim (0x80 # rest) (Suc t)))"
    by (rule trans [OF loop_again [of _ _ _ "10 + n" "sim (0x80 # rest) (Suc t)"] loop_exit])
      (use n len in \<open>simp_all add: send_body_def andthen_def ret_def sim_burst [OF b nz tm] t un sim_send_burst\<close>)
  moreover have w: "(0x80 :: byte) AND TPM_STAT_VALID = TPM_STAT_VALID" by simp
  ultimately show ?thesis
    using n by (simp add: tpm2_fifo_send_def andthen_def ret_def Let_def sim_write_fifo tm sim_wait [OF w, simplified] t)
qed

section \<open>Receiving\<close>

lemma sim_read_rest:
  assumes "length ds \<le> length (data buf)" and "length ds \<le> 246" and "ds \<noteq> []" and tm: "timeouts chip = Some tm" and "t < 10 ^ 9"
  shows "tpm2_fifo_read_data bo (Some chip) buf base 0 10 (int (10 + length ds))
      (sim (0x10 # of_nat (length ds) # 0 # ds @ rest) t) =
    Some (Inr ((0, buf\<lparr>data := overlay (data buf) 0 ds\<rparr>, int (10 + length ds)), sim rest (t + 2)))"
proof -
  define n where "n = length ds"
  have n: "0 < n" "n \<le> 246" "n \<le> length (data buf)" using assms by (simp_all add: n_def)
  have t: "min t end_of_time = t" "min (Suc t) end_of_time = Suc t" using assms(5) by (simp_all add: end_of_time_def)
  have un: "unat (of_nat n :: byte) = n" "unat (of_nat n :: u16) = n"
    using n(2) by (simp_all add: unsigned_of_nat take_bit_nat_eq_self)
  have b: "push_bit 8 (ucast (0 :: byte)) + ucast (of_nat n :: byte) = (of_nat n :: u16)"
    using un by (simp add: word_unat_eq_iff unsigned_ucast_eq)
  have nz: "(of_nat n :: u16) \<noteq> 0" using un(2) n(1) by (metis less_irrefl unsigned_0)
  have w: "(0x10 :: byte) AND TPM_STAT_AVAIL = TPM_STAT_AVAIL" by simp
  have "recv_burst bo n base Read_Data (int (10 + n)) buf 0 10 (sim (ds @ rest) (Suc (Suc t))) =
      Some (Inr ((0, buf\<lparr>data := overlay (data buf) 0 ds\<rparr>, int n, int (10 + n)), sim rest (Suc (Suc t))))"
    using sim_recv_burst [of ds n 0 "int (10 + n)" Read_Data buf bo base 10 rest "Suc (Suc t)"] n
    by (simp add: target_size_def store_def n_def ret_def)
  then have "loop (recv_body bo (Some chip) base Read_Data (int (10 + n))) (buf, 0, 10) (sim (of_nat n # 0 # ds @ rest) (Suc t)) =
      Some (Inr ((0, buf\<lparr>data := overlay (data buf) 0 ds\<rparr>, int (10 + n)), sim rest (Suc (Suc t))))"
    by (intro trans [OF loop_again [of _ _ _ "(buf\<lparr>data := overlay (data buf) 0 ds\<rparr>, int n, int (10 + n))" "sim rest (Suc (Suc t))"]
          loop_exit]) (use n in \<open>simp_all add: recv_body_def andthen_def ret_def sim_burst [OF b nz tm] t un\<close>)
  then show ?thesis
    unfolding n_def [symmetric]
    by (simp add: tpm2_fifo_read_data_def tm andthen_def ret_def sim_wait [OF w, simplified] t)
qed

text \<open>The bytes with which the platform answers a command: header and data, each in one burst.\<close>

definition reply_script :: "byte list \<Rightarrow> byte list \<Rightarrow> byte list" where
  "reply_script hs ds = [0x10, 10, 0] @ hs @ [0x10, of_nat (length ds), 0] @ ds"

lemma sim_receive:
  assumes "wf_cmd buf" and hs: "length hs = 10" and ds: "announced hs = 10 + length ds" "length ds \<le> 246" "ds \<noteq> []"
    and tm: "timeouts chip = Some tm" and "t < 10 ^ 8"
  shows "tpm2_fifo_receive bo (Some chip) buf (sim (reply_script hs ds @ rest) t) =
    Some (Inr ((0, response bo buf hs ds), sim rest (t + 4)))"
proof -
  define b where "b = buf\<lparr>header := hdr_of_bytes bo hs\<rparr>"
  have n: "sint (be32toh bo (cmd_size (header b))) = int (10 + length ds)"
    using announced_size(2) [OF b_def refl] ds by simp
  have c: "\<not> (256 :: u64) < scast (be32toh bo (cmd_size (header b)))"
    using size_check(1) [of "be32toh bo (cmd_size (header b))"] ds
    by (simp add: announced_def b_def announced_header)
  have len: "length ds \<le> length (data b)" using assms(1) ds(2) by (simp add: b_def wf_cmd_def)
  have t: "t < 10 ^ 9" "t + 2 < 10 ^ 9" using assms(7) by simp_all
  show ?thesis
    unfolding tpm2_fifo_receive_def reply_script_def
    using sim_read_header [OF hs tm t(1), of bo buf _ "0x10 # of_nat (length ds) # 0 # ds @ rest"]
      sim_read_rest [OF len ds(2,3) tm t(2), of bo _ rest] n c ds(3)
    by (simp add: andthen_def ret_def b_def [symmetric] Let_def) (simp add: b_def response_def numeral_eq_Suc)
qed

section \<open>An exchange\<close>

definition command_script :: "nat \<Rightarrow> byte list" where
  "command_script n = [0x40, of_nat n, 0, 0x80]"

lemma sim_xfer:
  assumes "wf_cmd cmd" and "unat (be32toh bo (cmd_size (header cmd))) = 10 + n" and "0 < n" and "n \<le> 246"
    and "wf_cmd buf" and "length hs = 10" and "announced hs = 10 + length ds" and "length ds \<le> 246" and "ds \<noteq> []"
    and "timeouts chip = Some tm" and "t < 10 ^ 7"
  shows "tpm_xfer bo (Some chip) cmd buf (sim (command_script n @ reply_script hs ds @ rest) t) =
    Some (Inr ((0, response bo buf hs ds), sim rest (t + 6)))"
proof -
  have i: "interface (sim bs u) = Some Fifo_Ops" for bs u by (simp add: sim_def)
  show ?thesis
    using sim_send [OF assms(1-4,10), of t "reply_script hs ds @ rest"]
      sim_receive [OF assms(5-10), of "t + 2" bo rest] assms(11)
    by (simp add: tpm_xfer_def interface_send_def interface_receive_def andthen_def get_state_def deref_def ret_def
        i command_script_def add.commute add.left_commute)
qed

lemma sim_command:
  fixes k :: "tpm_cmd \<Rightarrow> ((byte list \<times> nat) tpm_lib, 'r) op"
  assumes adds: "wp False False adds (\<lambda>_. built bo tg code bs) (tpm_cmd_init bo tg code)"
    and "0 < length bs" and "length bs \<le> 246" and buf: "wf_cmd buf"
    and reply: "length hs = 10" "announced hs = 10 + length ds" "length ds \<le> 246" "ds \<noteq> []"
    and tm: "timeouts chip = Some tm" and t: "t < 10 ^ 7"
  shows "andthen (build_cmd bo tg code adds) (\<lambda>(rc, cmd).
     if rc < 0 then ret (e rc) else
     andthen (tpm_xfer bo (Some chip) cmd buf) (\<lambda>(rc, resp).
     if rc < 0 then ret (e2 rc resp) else k resp)) (sim (command_script (length bs) @ reply_script hs ds @ rest) t) =
    k (response bo buf hs ds) (sim rest (t + 6))"
proof -
  obtain b where build: "(build_cmd bo tg code adds :: ((byte list \<times> nat) tpm_lib, int \<times> tpm_cmd) op) =
      ret (b_error_state b, b_cmd b)" and b: "built bo tg code bs b"
    using build_cmd_eq [OF adds] by blast
  then have "b_error_state b = 0" "wf_cmd (b_cmd b)" "unat (be32toh bo (cmd_size (header (b_cmd b)))) = 10 + length bs"
    using assms(3) by (simp_all add: built_def cmd_length_def)
  with sim_xfer [OF this(2,3) assms(2,3) buf reply tm t, of rest] show ?thesis
    by (simp add: build) (simp add: andthen_def)
qed

text \<open>Two commands, answered in full.\<close>

lemma sim_extend:
  assumes "unat n \<le> length dig" and "unat n \<le> 223"
    and reply: "length hs = 10" "announced hs = 10 + length ds" "length ds \<le> 246" "ds \<noteq> []"
    and "timeouts chip = Some tm"
  shows "tpm_pcr_extend bo (Some chip) index algorithm (Some dig) n (sim (command_script (23 + unat n) @ reply_script hs ds) 0) =
    Some (Inr (extend_code hs ds, sim [] 6))"
proof -
  have len: "length (extend_bytes i a (take (unat n) dig)) = 23 + unat n" for i a
    using assms(1) by (simp add: extend_bytes_def)
  note run = sim_command [OF extend_adds [OF assms(1)] _ _ wf_zero_cmd reply assms(7), where t = 0 and rest = "[]", unfolded len append_Nil2]
  show ?thesis
    unfolding tpm_pcr_extend_def option.case
    by (rule trans [OF run]) (use assms(2) in \<open>simp_all add: extend_code_def Let_def ret_def\<close>)
qed

lemma sim_read_single:
  assumes "index < 24" and len: "unat n \<le> length out" and junk: "wf_cmd junk"
    and reply: "length hs = 10" "announced hs = 10 + length ds" "length ds \<le> 246" "ds \<noteq> []"
    and "timeouts chip = Some tm"
  shows "tpm_pcr_read_single bo junk (Some chip) index algorithm (Some out) n (sim (command_script 10 @ reply_script hs ds) 0) =
    Some (Inr (read_outcome out n hs ds, sim [] 6))"
proof -
  have i: "unat index < 24" using assms(1) by (simp add: word_less_nat_alt)
  have guard: "(index \<ge> ucast TPM_PCR_SELECT_SIZE * 8) = False" "(unat n > length out) = False"
    using assms(1) len by (simp_all add: not_le)
  have rb: "length (read_bytes index a) = 10" for a by (simp add: read_bytes_def pcr_select_bytes_def)
  note run = sim_command [OF read_adds [OF i] _ _ junk reply assms(8), where t = 0 and rest = "[]", unfolded rb append_Nil2]
  have eq: "read_single_digest bo (response bo junk hs ds) n = digest_of n hs ds"
    using reply by (intro read_single_digest_eq [OF junk]) simp_all
  show ?thesis
    unfolding tpm_pcr_read_single_def guard if_False Let_def option.case
    by (rule trans [OF run])
      (use length_digest_of [of n hs ds] len in \<open>auto simp: eq read_outcome_def overlay_zeros ret_def split: sum.splits\<close>)
qed

section \<open>A capability query\<close>

text \<open>The header and the data of an honest answer, as bytes.\<close>

definition page_data :: "bool \<Rightarrow> u32 \<Rightarrow> nat \<Rightarrow> byte list \<Rightarrow> byte list" where
  "page_data m cap n es = of_bool m # be32 cap @ be32 (of_nat n) @ es"

definition page_header :: "nat \<Rightarrow> byte list" where
  "page_header n = be16 TPM_ST_NO_SESSIONS @ be32 (of_nat (10 + n)) @ be32 TPM_RESPONSE_SUCCESS"

lemma page_header_simps:
  assumes "n \<le> 246"
  shows "length (page_header n) = 10" "announced (page_header n) = 10 + n"
    "response_tag (page_header n) = TPM_ST_NO_SESSIONS" "response_code (page_header n) = TPM_RESPONSE_SUCCESS"
proof -
  have "unat (of_nat (10 + n) :: u32) = 10 + n" using assms by (simp add: unsigned_of_nat take_bit_nat_eq_self del: of_nat_add)
  then show "announced (page_header n) = 10 + n"
    by (simp add: announced_def page_header_def nth_append of_be32_nth [simplified] del: of_nat_add)
qed (simp_all add: page_header_def response_tag_def response_code_def nth_append
    of_be16_nth [simplified] of_be32_nth [simplified])

lemma page_header_hdr:
  "hdr_of_bytes bo (page_header n) =
    \<lparr>tag = htobe16 bo TPM_ST_NO_SESSIONS, cmd_size = htobe32 bo (of_nat (10 + n)), cmd_code = htobe32 bo TPM_RESPONSE_SUCCESS\<rparr>"
proof -
  have "page_header n = hdr_bytes bo
      \<lparr>tag = htobe16 bo TPM_ST_NO_SESSIONS, cmd_size = htobe32 bo (of_nat (10 + n)), cmd_code = htobe32 bo TPM_RESPONSE_SUCCESS\<rparr>"
    by (simp add: page_header_def hdr_bytes_def)
  then show ?thesis by (simp only: hdr_of_bytes_hdr_bytes)
qed

lemma response_page:
  assumes "length es \<le> 237"
  shows "response bo zero_cmd (page_header (length (page_data m cap n es))) (page_data m cap n es) = cap_response bo m cap n es"
  using assms
  by (simp add: response_def cap_response_def page_data_def page_header_hdr Let_def overlay_def zero_cmd_def)

text \<open>One page, and with it the whole query for an algorithm that the page decides.\<close>

definition page_script :: "bool \<Rightarrow> u32 \<Rightarrow> nat \<Rightarrow> byte list \<Rightarrow> byte list" where
  "page_script m cap n es =
     command_script 12 @ reply_script (page_header (length (page_data m cap n es))) (page_data m cap n es)"

lemma sim_getcap:
  assumes "length es \<le> 237" and "timeouts chip = Some tm" and "t < 10 ^ 7"
  shows "getcap_raw bo (Some chip) cap prop cnt (Some r0) (Some m0) (sim (page_script m cap n es @ rest) t) =
    Some (Inr ((0, Some (cap_response bo m cap n es), Some m), sim rest (t + 6)))"
proof -
  define ds where "ds = page_data m cap n es"
  have ds: "length ds \<le> 246" "ds \<noteq> []" "ds ! 0 = of_bool m" using assms(1) by (simp_all add: ds_def page_data_def)
  have len: "length (be32 a @ be32 b @ be32 c) = 12" for a b c by simp
  note hs = page_header_simps [OF ds(1)]
  note run = sim_command [OF getcap_adds _ _ wf_zero_cmd hs(1,2) ds(1,2) assms(2,3), where rest = rest,
      unfolded len]
  have r: "response bo zero_cmd (page_header (length ds)) ds = cap_response bo m cap n es"
    unfolding ds_def by (rule response_page [OF assms(1)])
  have first: "data (response bo zero_cmd (page_header (length ds)) ds) ! 0 = of_bool m"
    using response_first [of ds bo "page_header (length ds)"] ds by simp
  have dl: "0 < length (data (response bo zero_cmd (page_header (length ds)) ds))"
    using wf_response [OF wf_zero_cmd, of ds bo "page_header (length ds)"] ds(1) by (simp add: wf_cmd_def)
  show ?thesis
    unfolding getcap_raw_def not_null if_False page_script_def append_assoc ds_def [symmetric]
    by (rule trans [OF run]) (use hs ds first dl in \<open>simp_all add: Let_def announced_def [symmetric] array_get_def ret_def r [symmetric]\<close>)
qed

lemma alg_page_cap_response:
  assumes "length es \<le> 39"
  shows "alg_page bo (cap_response bo m TPM_CAP_ALGS (length es) (encode_algs es)) = Some (es, True)"
    "wf_cmd (cap_response bo m TPM_CAP_ALGS (length es) (encode_algs es))"
proof -
  have len: "length (encode_algs es) \<le> 237" using assms by (simp add: length_encode_algs)
  show "wf_cmd (cap_response bo m TPM_CAP_ALGS (length es) (encode_algs es))" by (rule wf_cap_response [OF len])
  show "alg_page bo (cap_response bo m TPM_CAP_ALGS (length es) (encode_algs es)) = Some (es, True)"
    using page_cap_response [OF len, of "length es" decode_algs TPM_CAP_ALGS bo m] decode_encode_algs [of es "[]"] assms
    by (simp add: alg_page_def)
qed

abbreviation alg_script :: "bool \<Rightarrow> (u16 \<times> u32) list \<Rightarrow> byte list" where
  "alg_script m es \<equiv> page_script m TPM_CAP_ALGS (length es) (encode_algs es)"

lemma sim_page_step:
  assumes "length es \<le> 39" and "timeouts chip = Some tm" and "t < 10 ^ 7" and "terminated alg_id TPM_MAX_ALG_PROPERTIES q"
  shows "algs_pages (Suc n) bo (Some chip) mx prop c l m0 q (sim (alg_script m es @ rest) t) =
    (if m \<and> es = [] then ret (TPM_ERR_RESPONSE, q) else
     if m \<and> last (map fst es) < mx
     then algs_pages n bo (Some chip) mx (ucast (last (map fst es)) + 1) (of_nat (length es)) (last (map fst es)) m (fold alg_upd es q)
     else ret (TPM_SUCCESS, fold alg_upd es q)) (sim rest (t + 6))"
proof -
  have len: "length (encode_algs es) \<le> 237" using assms(1) by (simp add: length_encode_algs)
  note page = alg_page_cap_response [OF assms(1), of bo m]
  note after = algs.after_page [where bo = bo, OF page(2) assms(4), unfolded page(1) option.case prod.case bool.case]
  have run: "andthen (getcap_raw bo (Some chip) TPM_CAP_ALGS prop TPM_DEFAULT_PAGE_COUNT (Some zero_cmd) (Some m0)) k
      (sim (alg_script m es @ rest) t) =
     k (0, Some (cap_response bo m TPM_CAP_ALGS (length es) (encode_algs es)), Some m) (sim rest (t + 6))"
    for k :: "_ \<Rightarrow> ((byte list \<times> nat) tpm_lib, int \<times> tpm_alg_query_t list) op"
    using sim_getcap [OF len assms(2,3)] by (simp add: andthen_def)
  show ?thesis
    unfolding algs.pages_Suc run prod.case option.sel after by simp
qed

lemma sim_has_alg:
  assumes "alg \<noteq> TPM_ALG_NULL" and "length es \<le> 39" and "length es' \<le> 39" and "es \<noteq> []" and "last (map fst es) < alg"
    and "\<not> m \<or> es' \<noteq> [] \<and> \<not> last (map fst es') < alg" and "timeouts chip = Some tm"
  shows "tpm_has_alg bo (Some chip) alg (Some old) (sim (alg_script True es @ alg_script m es') 0) =
    Some (Inr ((TPM_SUCCESS, Some (alg \<in> fst ` set (es @ es'))), sim [] 12))"
proof -
  define q where "q = [\<lparr>alg_id = alg, enabled = False\<rparr>, \<lparr>alg_id = TPM_ALG_NULL, enabled = False\<rparr>]"
  note one = one_query [OF assms(1), folded q_def]
  define q0 where "q0 = upto_null alg_id (\<lambda>q. q\<lparr>enabled := False\<rparr>) q"
  have v: "terminated alg_id TPM_MAX_ALG_PROPERTIES q0" unfolding q0_def terminated_reset(1) by (rule one(3))
  have t: "(0 :: nat) < 10 ^ 7" "(6 :: nat) < 10 ^ 7" by simp_all
  have "algs_pages (Suc 62) bo (Some chip) alg p c l True (fold alg_upd es q0) (sim (alg_script m es' @ []) 6) =
      Some (Inr ((TPM_SUCCESS, fold alg_upd es' (fold alg_upd es q0)), sim [] (6 + 6)))" for p c l
    unfolding sim_page_step [OF assms(3,7) t(2) algs.fold_valid [OF v]] using assms(6) by (auto simp: ret_def)
  then have "algs_pages (Suc (Suc 62)) bo (Some chip) alg 0 0 0 False q0 (sim (alg_script True es @ alg_script m es' @ []) 0) =
      Some (Inr ((TPM_SUCCESS, fold alg_upd es' (fold alg_upd es q0)), sim [] (6 + 6)))"
    unfolding sim_page_step [OF assms(2,7) t(1) v] using assms(4,5) by simp
  then have pages: "algs_pages TPM_MAX_PAGES bo (Some chip) alg 0 0 0 False q0 (sim (alg_script True es @ alg_script m es') 0) =
      Some (Inr ((TPM_SUCCESS, alg_answer (es @ es') q), sim [] 12))"
    using upto_null_reset_algs [of "es @ es'" q] by (simp add: q0_def alg_answer_def numeral_eq_Suc)
  show ?thesis
    unfolding tpm_has_alg_def tpm_getcap_query_algs_def option.case q_def [symmetric] reset_algs_spec [OF one(3)] q0_def [symmetric]
      andthen_ret prod.case one(1,2)
    using pages one(4) [of "es @ es'"]
    by (simp add: andthen_def ret_def array_get_def del: TPM_MAX_PAGES_def)
qed

section \<open>An iteration\<close>

lemma sim_find_step:
  assumes "length es \<le> 39" and "timeouts chip = Some tm" and "t < 10 ^ 7" and v: "visit (alg_visitor mset mclr cb) es ctx = (k, hit, x)"
  shows "algs_find_pages (Suc n) bo (Some chip) mset mclr (Some cb) prop c l m0 fd ctx (sim (alg_script m es @ rest) t) =
    (if hit then ret (TPM_SUCCESS, x) else
     if m \<and> es = [] then ret (TPM_ERR_RESPONSE, x) else
     if m then algs_find_pages n bo (Some chip) mset mclr (Some cb) (ucast (last (map fst es)) + 1) (of_nat (length es))
       (last (map fst es)) m False x
     else ret (TPM_SUCCESS, x)) (sim rest (t + 6))"
proof -
  have len: "length (encode_algs es) \<le> 237" using assms(1) by (simp add: length_encode_algs)
  note page = alg_page_cap_response [OF assms(1), of bo m]
  note after = alg_search.after_page [where bo = bo, OF page(2), unfolded page(1) option.case prod.case]
  have run: "andthen (getcap_raw bo (Some chip) TPM_CAP_ALGS prop TPM_DEFAULT_PAGE_COUNT (Some zero_cmd) (Some m0)) k
      (sim (alg_script m es @ rest) t) =
     k (0, Some (cap_response bo m TPM_CAP_ALGS (length es) (encode_algs es)), Some m) (sim rest (t + 6))"
    for k :: "_ \<Rightarrow> ((byte list \<times> nat) tpm_lib, int \<times> 'c) op"
    using sim_getcap [OF len assms(2,3)] by (simp add: andthen_def)
  show ?thesis
    unfolding alg_search.pages_Suc run prod.case option.sel after v by simp
qed

text \<open>Two pages, the callback stopping on neither.\<close>

lemma sim_for_each_alg:
  assumes "length es \<le> 39" and "length es' \<le> 39" and "es \<noteq> []" and "timeouts chip = Some tm"
    and v: "visit (alg_visitor mset mclr cb) es ctx = (k, False, x)" and v': "visit (alg_visitor mset mclr cb) es' x = (k', False, y)"
  shows "tpm_for_each_alg_props bo (Some chip) mset mclr (Some cb) ctx (sim (alg_script True es @ alg_script False es') 0) =
    Some (Inr ((TPM_SUCCESS, y), sim [] 12))"
proof -
  have t: "(0 :: nat) < 10 ^ 7" "(6 :: nat) < 10 ^ 7" by simp_all
  have "algs_find_pages (Suc 62) bo (Some chip) mset mclr (Some cb) p c l True False x (sim (alg_script False es' @ []) 6) =
      Some (Inr ((TPM_SUCCESS, y), sim [] (6 + 6)))" for p c l
    unfolding sim_find_step [OF assms(2,4) t(2) v'] by (simp add: ret_def)
  then have "algs_find_pages (Suc (Suc 62)) bo (Some chip) mset mclr (Some cb) 0 0 0 False False ctx
        (sim (alg_script True es @ alg_script False es' @ []) 0) = Some (Inr ((TPM_SUCCESS, y), sim [] (6 + 6)))"
    unfolding sim_find_step [OF assms(1,4) t(1) v] using assms(3) by simp
  then show ?thesis by (simp add: tpm_for_each_alg_props_def numeral_eq_Suc)
qed

end
