(* ===== verification/TPM_CmdLive.thy ===== *)
theory TPM_CmdLive
  imports TPM_Search
begin

unbundle bit_operations_syntax

text \<open>
  Every command returns: with a fair timer no command and no page loop hangs, and with a TPM
  that announces no response longer than the data array none of them leaves its buffers.
\<close>

context fair_timer
begin

lemma command_live:
  fixes k :: "tpm_cmd \<Rightarrow> ('p tpm_lib, 'r) op"
  assumes s: "opened_lib D T s" and tm: "timeouts chip = Some tm" and buf: "wf_cmd buf"
    and fits: "\<not> f \<Longrightarrow> short_responses bo chip D T"
    and adds: "wp False False adds (\<lambda>_. built bo tg code bs) (tpm_cmd_init bo tg code)"
    and k: "\<And>hs ds tr. answered (LOCALITY_START_ADDRESS (locality chip)) (wire tg code bs) hs ds tr \<Longrightarrow>
      \<exists>r. k (response bo buf hs ds) = ret r"
  shows "wp False f (andthen (build_cmd bo tg code adds) (\<lambda>(rc, cmd).
     if rc < 0 then ret (e rc) else
     andthen (tpm_xfer bo (Some chip) cmd buf) (\<lambda>(rc, resp).
     if rc < 0 then ret (e2 rc resp) else k resp))) (\<lambda>_ t. onward s t) s"
proof -
  obtain b where build: "(build_cmd bo tg code adds :: ('p tpm_lib, int \<times> tpm_cmd) op) =
      ret (b_error_state b, b_cmd b)" and b: "built bo tg code bs b"
    using build_cmd_eq [OF adds] by blast
  show ?thesis
  proof (cases "b_error_state b = 0")
    case True
    then have w: "cmd_bytes bo (b_cmd b) = wire tg code bs" "sendable bo (b_cmd b)"
      using b by (auto simp: built_def sendable_def cmd_length_def wf_cmd_def split: if_splits)
    show ?thesis
      unfolding build andthen_ret prod.case True
    proof (simp, rule wp_seq [OF wp_traced [OF traced_xfer [OF refl] xfer_live [OF s tm w(2) buf fits]]], assumption, goal_cases)
      case (1 a t)
      obtain rc resp where a: "a = (rc, resp)" by (cases a)
      with 1 obtain tr where "exchanged bo (LOCALITY_START_ADDRESS (locality chip)) (b_cmd b) buf (rc, resp) tr" by auto
      then show ?case
        using buf
      proof (cases rule: exchanged_cases)
        case (2 hs ds)
        then obtain r where "k resp = ret r" using k [of hs ds tr] w(1) by auto
        with 2 1 show ?thesis by (simp add: a wp_simps)
      qed (use 1 in \<open>simp add: a wp_simps\<close>)
    qed
  next
    case False
    then have "b_error_state b = TPM_INVALID_PARAM" using b by (auto simp: built_def split: if_splits)
    then show ?thesis by (simp add: build wp_simps onward_refl)
  qed
qed

lemma startup_live:
  assumes "opened_lib D T s" and "timeouts chip = Some tm" and "\<not> f \<Longrightarrow> short_responses bo chip D T"
  shows "wp False f (tpm_startup bo (Some chip) mode) (\<lambda>_ t. onward s t) s"
  unfolding tpm_startup_def by (rule command_live [OF assms(1,2) wf_zero_cmd assms(3) startup_adds]) (auto simp: Let_def)

lemma extend_live:
  assumes "opened_lib D T s" and "timeouts chip = Some tm" and "\<not> f \<Longrightarrow> short_responses bo chip D T"
    and "unat n \<le> length dig"
  shows "wp False f (tpm_pcr_extend bo (Some chip) index algorithm (Some dig) n) (\<lambda>_ t. onward s t) s"
  unfolding tpm_pcr_extend_def option.case
  by (rule command_live [OF assms(1,2) wf_zero_cmd assms(3) extend_adds [OF assms(4)]]) (auto simp: Let_def)

lemma read_single_live:
  assumes "opened_lib D T s" and "timeouts chip = Some tm" and "\<not> f \<Longrightarrow> short_responses bo chip D T"
    and "wf_cmd junk" and "unat n \<le> length out"
  shows "wp False f (tpm_pcr_read_single bo junk (Some chip) index algorithm (Some out) n) (\<lambda>_ t. onward s t) s"
proof (cases "index < 24")
  case True
  then have i: "unat index < 24" by (simp add: word_less_nat_alt)
  have guard: "(index \<ge> ucast TPM_PCR_SELECT_SIZE * 8) = False" "(unat n > length out) = False"
    using True assms(5) by (simp_all add: not_le)
  show ?thesis
    unfolding tpm_pcr_read_single_def guard if_False Let_def option.case
    by (rule command_live [OF assms(1,2,4,3) read_adds [OF i]]) (auto split: sum.splits)
next
  case False
  then show ?thesis by (simp add: tpm_pcr_read_single_def not_less wp_simps onward_refl)
qed

lemma allocate_live:
  assumes "opened_lib D T s" and "timeouts chip = Some tm" and "\<not> f \<Longrightarrow> short_responses bo chip D T"
    and pw: "unat n = length pw" and banks: "\<forall>b \<in> set banks. length (ab_pcr_select b) = 3"
    and nul: "terminated ab_hash_alg TPM_MAX_PCR_SELECTIONS banks"
  shows "wp False f (tpm_pcr_allocate_auth_password bo (Some chip) (Some pw) n (Some banks) (Some a) (Some b) (Some c) (Some d))
    (\<lambda>_ t. onward s t) s"
proof -
  have cnt: "count_banks TPM_MAX_PCR_SELECTIONS 0 banks = ret (length (listed_banks banks))"
    using count_banks_eq [of TPM_MAX_PCR_SELECTIONS 0 banks] nul by simp
  have "wp False f (andthen (build_cmd bo TPM_ST_SESSIONS TPM_CMD_PCR_ALLOCATE
        (add_allocate_fields bo pw n banks (length (listed_banks banks)))) (\<lambda>(rc, cmd).
      if rc < 0 then ret (rc, Some a, Some b, Some c, Some d) else
      andthen (tpm_xfer bo (Some chip) cmd zero_cmd) (\<lambda>(rc, resp).
      if rc < 0 then ret (rc, Some a, Some b, Some c, Some d) else
      allocate_response bo resp (Some a) (Some b) (Some c) (Some d)))) (\<lambda>_ t. onward s t) s"
  proof (rule command_live [OF assms(1,2) wf_zero_cmd assms(3) allocate_adds [OF pw banks]], assumption, goal_cases)
    case (1 hs ds tr)
    then have len: "announced hs \<le> TPM_HEADER_SIZE + length ds" "length ds \<le> MAX_CMD_DATA"
      by (simp_all add: answered_def)
    show ?case unfolding allocate_response_eq [OF len wf_zero_cmd] by blast
  qed
  then show ?thesis
    by (simp add: tpm_pcr_allocate_auth_password_def cnt Let_def wp_ret wp_if onward_refl
        del: TPM_MAX_PCR_SELECTIONS_def TPM_ST_SESSIONS_def TPM_CMD_PCR_ALLOCATE_def)
qed

lemma getcap_raw_live:
  assumes "opened_lib D T s" and "timeouts chip = Some tm" and "\<not> f \<Longrightarrow> short_responses bo chip D T"
  shows "wp False f (getcap_raw bo (Some chip) cap prop n (Some r0) (Some m0)) (\<lambda>_ t. onward s t) s"
  unfolding getcap_raw_def not_null if_False
proof (rule command_live [OF assms(1,2) wf_zero_cmd assms(3) getcap_adds], assumption, goal_cases)
  case (1 hs ds tr)
  then have "length (data (response bo zero_cmd hs ds)) = 246"
    using wf_response [OF wf_zero_cmd, of ds bo hs] by (simp add: answered_def wf_cmd_def)
  then show ?case by (auto simp: Let_def array_get_def)
qed

end

text \<open>The page loops: each page is asked for and parsed in bounded time, and there are at most \<open>n\<close>.\<close>

context page_query
begin

lemma pages_live:
  assumes page: "\<And>prop m s. I s \<Longrightarrow>
      wp False f (getcap_raw bo (Some chip) cap prop TPM_DEFAULT_PAGE_COUNT (Some zero_cmd) (Some m)) (\<lambda>_ t. I t) s"
    and "I s" and "valid_query q"
  shows "wp False f (pages n (Some chip) mx prop c l m q) (\<lambda>_ t. I t) s"
  using assms(2,3)
proof (induction n arbitrary: "prop" c l m q s)
  case (Suc n)
  show ?case
    unfolding pages_Suc
  proof (rule wp_seq [OF wp_ran [OF page [OF Suc.prems(1)]]], clarify, intro wp_ifI, goal_cases)
    case (2 rc resp m t)
    then obtain r m' tr where r: "resp = Some r" "m = Some m'"
      "page_reply bo (LOCALITY_START_ADDRESS (locality chip)) (getcap_wire cap prop TPM_DEFAULT_PAGE_COUNT) r m' tr"
      using tracedD [OF traced_getcap_raw [OF refl] 2(2)] by (auto simp: page_asked_def)
    show ?case
      unfolding r(1,2) option.sel after_page [OF wf_page_reply [OF r(3)] Suc.prems(2)]
      using 2(1) Suc.IH [OF 2(1)] fold_valid [OF Suc.prems(2)]
      by (auto simp: wp_simps split: option.split bool.split)
  qed (simp add: wp_simps)
qed (simp add: pages_0 wp_simps)

end

context page_search
begin

lemma pages_live:
  assumes page: "\<And>prop m s. I s \<Longrightarrow>
      wp False flt (getcap_raw bo (Some chip) cap prop TPM_DEFAULT_PAGE_COUNT (Some zero_cmd) (Some m)) (\<lambda>_ t. I t) s"
    and "I s"
  shows "wp False flt (pages n (Some chip) prop c l m fd ctx) (\<lambda>_ t. I t) s"
  using assms(2)
proof (induction n arbitrary: "prop" c l m fd ctx s)
  case (Suc n)
  show ?case
    unfolding pages_Suc
  proof (rule wp_seq [OF wp_ran [OF page [OF Suc.prems]]], clarify, intro wp_ifI, goal_cases)
    case (2 rc resp m t)
    then obtain r m' tr where r: "resp = Some r" "m = Some m'"
      "page_reply bo (LOCALITY_START_ADDRESS (locality chip)) (getcap_wire cap prop TPM_DEFAULT_PAGE_COUNT) r m' tr"
      using tracedD [OF traced_getcap_raw [OF refl] 2(2)] by (auto simp: page_asked_def)
    show ?case
      unfolding r(1,2) option.sel after_page [OF wf_page_reply [OF r(3)]]
      using 2(1) Suc.IH [OF 2(1)]
      by (auto simp: wp_simps split: option.split prod.split)
  qed (simp add: wp_simps)
qed (simp add: pages_0 wp_simps)

end

section \<open>The capability queries\<close>

context fair_timer
begin

lemma page_live:
  assumes "timeouts chip = Some tm" and "\<not> f \<Longrightarrow> short_responses bo chip D T" and "opened_lib D T s"
  shows "wp False f (getcap_raw bo (Some chip) cap prop n (Some r0) (Some m0)) (\<lambda>_ t. opened_lib D T t) s"
  by (rule wp_mono [OF getcap_raw_live [OF assms(3,1,2)]]) (use opened_onward assms(3) in auto)

lemma query_algs_live:
  assumes tm: "timeouts chip = Some tm" and fits: "\<not> f \<Longrightarrow> short_responses bo chip D T" and s: "opened_lib D T s"
    and q: "terminated alg_id TPM_MAX_ALG_PROPERTIES q"
  shows "wp False f (tpm_getcap_query_algs bo (Some chip) (Some q)) (\<lambda>_ t. opened_lib D T t) s"
proof -
  have "wp False f (algs_pages n bo (Some chip) mx prop c l m qs) (\<lambda>_ t. opened_lib D T t) s"
    if "terminated alg_id TPM_MAX_ALG_PROPERTIES qs" for n mx "prop" c l m qs
    by (rule algs.pages_live [where I = "opened_lib D T", OF page_live [OF tm fits] s that])
  note this [OF terminated_reset(1) [THEN iffD2, OF q]]
  then show ?thesis
    unfolding tpm_getcap_query_algs_def option.case reset_algs_spec [OF q] andthen_ret prod.case
    using s by (simp add: wp_simps case_prod_unfold del: TPM_MAX_PAGES_def TPM_MAX_ALG_PROPERTIES_def)
qed

lemma query_pcrs_live:
  assumes tm: "timeouts chip = Some tm" and fits: "\<not> f \<Longrightarrow> short_responses bo chip D T" and s: "opened_lib D T s"
    and q: "terminated bq_hash_alg TPM_MAX_PCR_SELECTIONS q"
  shows "wp False f (tpm_getcap_query_pcrs bo (Some chip) (Some q)) (\<lambda>_ t. opened_lib D T t) s"
proof -
  have "wp False f (pcrs_pages n bo (Some chip) mx prop c l m qs) (\<lambda>_ t. opened_lib D T t) s"
    if "terminated bq_hash_alg TPM_MAX_PCR_SELECTIONS qs" for n mx "prop" c l m qs
    by (rule pcrs.pages_live [where I = "opened_lib D T", OF page_live [OF tm fits] s that])
  note this [OF terminated_reset(2) [THEN iffD2, OF q]]
  then show ?thesis
    unfolding tpm_getcap_query_pcrs_def option.case reset_pcrs_spec [OF q] andthen_ret prod.case
    using s by (simp add: wp_simps case_prod_unfold del: TPM_MAX_PAGES_def TPM_MAX_PCR_SELECTIONS_def)
qed

lemma has_alg_live:
  assumes tm: "timeouts chip = Some tm" and fits: "\<not> f \<Longrightarrow> short_responses bo chip D T" and s: "opened_lib D T s"
  shows "wp False f (tpm_has_alg bo (Some chip) alg (Some old)) (\<lambda>_ t. opened_lib D T t) s"
proof (cases "alg = TPM_ALG_NULL")
  case True
  then show ?thesis using s unfolding True has_alg_null by (simp add: wp_simps)
next
  case False
  note q = one_query [OF False]
  have some: "(Some old = None) = False" by simp
  show ?thesis
    unfolding tpm_has_alg_def some if_False
  proof (rule wp_seq [OF wp_ran [OF query_algs_live [OF tm fits s q(3)]]], assumption, clarify, goal_cases)
    case (1 rc item t)
    from tracedD [OF traced_query_algs [OF refl q(3)] 1(2)] obtain es where
      "item = Some (alg_answer es [\<lparr>alg_id = alg, enabled = False\<rparr>, \<lparr>alg_id = TPM_ALG_NULL, enabled = False\<rparr>])"
      unfolding query_outcome_def prod.case q(1,2) by (auto split: if_splits)
    with 1(1) show ?case unfolding q(4) by (simp add: wp_simps)
  qed
qed

lemma get_alg_props_live:
  assumes tm: "timeouts chip = Some tm" and fits: "\<not> f \<Longrightarrow> short_responses bo chip D T" and s: "opened_lib D T s"
  shows "wp False f (tpm_get_alg_props bo (Some chip) alg (Some old) (Some old_props)) (\<lambda>_ t. opened_lib D T t) s"
  unfolding tpm_get_alg_props_def not_null if_False
proof (rule wp_seq [OF wp_ran [OF page_live [OF tm fits s]]], assumption, clarify, intro wp_ifI, goal_cases)
  case (2 rc resp m t)
  then obtain r m' tr where r: "resp = Some r"
    "page_reply bo (LOCALITY_START_ADDRESS (locality chip)) (getcap_wire TPM_CAP_ALGS (ucast alg) 1) r m' tr"
    using tracedD [OF traced_getcap_raw [OF refl] 2(2)] by (auto simp: page_asked_def)
  show ?case unfolding r(1) props_refines [OF wf_page_reply [OF r(2)]] wp_ret by (fact 2)
qed (simp add: wp_simps)

lemma for_each_alg_live:
  assumes tm: "timeouts chip = Some tm" and fits: "\<not> f \<Longrightarrow> short_responses bo chip D T" and s: "opened_lib D T s"
  shows "wp False f (tpm_for_each_alg_props bo (Some chip) mset mclr (Some cb) ctx) (\<lambda>_ t. opened_lib D T t) s"
  unfolding tpm_for_each_alg_props_def
  using alg_search.pages_live [where I = "opened_lib D T", OF page_live [OF tm fits] s] by simp

lemma for_each_pcr_live:
  assumes tm: "timeouts chip = Some tm" and fits: "\<not> f \<Longrightarrow> short_responses bo chip D T" and s: "opened_lib D T s"
  shows "wp False f (tpm_for_each_pcr_bank bo (Some chip) (Some cb) ctx) (\<lambda>_ t. opened_lib D T t) s"
  unfolding tpm_for_each_pcr_bank_def
  using pcr_search.pages_live [where I = "opened_lib D T", OF page_live [OF tm fits] s] by simp

end

end
