(* ===== verification/Spec2Isabelle.thy ===== *)
theory Spec2Isabelle
  imports TPM_Run TPM_CmdLive
begin

text \<open>
  \<^bold>\<open>libTPM\<close>: a verification of the TPM 2.0 library under \<^verbatim>\<open>src/\<close>.

  The program talks to a TPM over SPI. A client opens the interface, sends commands and reads
  responses; below that the FIFO interface polls registers and moves bytes in bursts, and each
  register access is one transaction on the SPI bus of the platform. The platform's callbacks
  (SPI and timer), the clock and the caller's callbacks are arguments of the model.

  \<^bold>\<open>How the code is modelled.\<close> A C function is an operation \<open>('s, 'a) op\<close> (\<open>TPM_Prelude\<close>): from a
  state it gives \<open>None\<close> (it does not end), \<open>Some (Inl fault)\<close> (a null pointer is followed or an
  array is left) or \<open>Some (Inr (result, state))\<close>. Loops whose end depends on the TPM are the
  \<open>partial_function\<close> \<open>loop\<close>, so ending is a theorem; loops with a counter are structural. Output
  parameters are returned with the code, null pointers are \<open>None\<close>, integers keep their width.
  \<open>wp hang fault m Q s\<close> is the weakest precondition, with two flags that say whether \<open>None\<close> and
  faults are tolerated: \<open>wp False False\<close> is total correctness, \<open>wp True True\<close> partial.

  \<^bold>\<open>Theories and the code they model.\<close>
  \<^item> \<open>TPM_Endian\<close>: \<^verbatim>\<open>endian_private.h\<close>, for either byte order of the host.
  \<^item> \<open>TPM_Types\<close>: the constants, structs and callback tables of the headers, \<^verbatim>\<open>tpm2_chip.c\<close>, and
    the globals of the library (\<open>tpm_lib\<close>).
  \<^item> \<open>TPM_Timer\<close>: \<^verbatim>\<open>timer/posix_timer_ops.c\<close>; the contract \<open>deadline_timer\<close>.
  \<^item> \<open>TPM_SPI\<close>: \<^verbatim>\<open>tpm2_fifo_spi.c\<close>; the bus protocol \<open>spi_bus\<close>, interpreted on a platform that
    records its events and return codes, the exact events of an access and the error it keeps.
  \<^item> \<open>TPM_FIFO\<close>: \<^verbatim>\<open>tpm2_fifo.c\<close>, every function with its loops.
  \<^item> \<open>TPM_Trace\<close>, \<open>TPM_Recv\<close>: what these functions write to and read from the registers. An
    operation is \<open>traced\<close> if each of its runs is a sequence of register accesses (\<open>reg_run\<close>, an
    inductive relation) that satisfies a predicate; \<open>TPM_Recv\<close> does the receiving side.
  \<^item> \<open>TPM_Live\<close>: the locale \<open>fair_timer\<close> (each poll of a timer that has not run out brings the
    end nearer) and that every FIFO function returns under it; it is interpreted on the POSIX
    timer over a ticking clock.
  \<^item> \<open>TPM_Interface\<close>: \<^verbatim>\<open>tpm_interface_init\<close>, \<^verbatim>\<open>tpm_interface_close\<close>, \<^verbatim>\<open>tpm_xfer\<close> of \<^verbatim>\<open>tpm2_cmds.c\<close>.
  \<^item> \<open>TPM_Builder\<close>: the command builder, which meets the contract \<open>byte_sink\<close>.
  \<^item> \<open>TPM_Iter\<close>: the response iterator, which meets the contract \<open>byte_source\<close>.
  \<^item> \<open>TPM_Parse\<close>: the four capability parsers, and their specification by decoding functions
    on byte lists (\<open>decode_algs\<close>, \<open>decode_pcrs\<close>, \<open>page\<close>).
  \<^item> \<open>TPM_Cmds\<close>: startup, PCR extend, PCR read and PCR allocate; \<open>outcome\<close> ties the result of a
    command to the one exchange it makes.
  \<^item> \<open>TPM_GetCap\<close>: \<^verbatim>\<open>getcap_raw\<close> and all queries over it; \<open>paged\<close> is the conversation of a page
    loop, the locale \<open>page_query\<close> what the two query loops have in common.
  \<^item> \<open>TPM_Query\<close>, \<open>TPM_Search\<close>: the queries and the iterations with a callback (the locale
    \<open>page_search\<close>), and what they answer over a TPM that lists its entries in order.
  \<^item> \<open>TPM_CmdLive\<close>: every command and every query ends.
  \<^item> \<open>TPM_Sim\<close>, \<open>TPM_Run\<close>: two small platforms on which witnesses run, and complete runs on one of
    them: two commands, a query and an iteration of two pages each.

  \<^bold>\<open>What is shown.\<close> The properties below are numbered. The commands transmit exactly the bytes of
  the TPM command and interpret exactly the bytes of the response; the queries compute what the
  pages list, and over an honest TPM what the TPM has; the parsers refine decoding functions and
  undo an encoding; the builder and the iterator keep their invariants and stay in their
  buffers; every bus access is a complete transaction; and with a timer that runs out
  everything returns.

  One of them is a defect: \<^verbatim>\<open>tpm2_fifo_read_data\<close> compares the index into the data array with the
  size of the whole response and can store behind the end of the array. The properties about
  memory safety therefore assume that no announced response is longer than the data array
  (\<open>short_responses\<close>). A smaller one is \<open>props_of_empty_list\<close> in \<open>TPM_Search\<close>: \<^verbatim>\<open>tpm_get_alg_props\<close>
  takes an empty list for an error.

  \<^bold>\<open>Bounds.\<close> Nothing is bounded by fuel. The counters of the model are those of the code: 50
  wait-state polls, 64 pages, 64 and 8 queries.

  \<^bold>\<open>Not modelled.\<close> The log macros (\<^verbatim>\<open>debug.h\<close>, \<^verbatim>\<open>log_backend_*.h\<close>) and their arguments, also where an
  argument follows a pointer: the message of a failed \<^verbatim>\<open>tpm2_fifo_release_locality\<close> reads
  \<^verbatim>\<open>chip_data->locality\<close>. The build files and the packaging test, which holds no logic. Of the two
  branches of \<^verbatim>\<open>bswap16\<close> and \<^verbatim>\<open>bswap32\<close> the portable one is modelled, not the compiler's builtin.
  The \<^verbatim>\<open>priv\<close> pointer of \<^verbatim>\<open>struct tpm_spi_plat\<close> is the platform's state, and its table of operations is
  never null. \<^verbatim>\<open>size_t\<close> has 64 and \<^verbatim>\<open>int\<close> 32 bits; the callbacks of a
  caller act on their own context and do not call the library.
\<close>

unbundle bit_operations_syntax

section \<open>Sending and receiving\<close>

text \<open>
  C1: whenever \<^verbatim>\<open>tpm2_fifo_send\<close> returns, the registers it has written are, in this order:
  possibly \<open>TPM_STAT_COMMAND_READY\<close> to the status register, the ten header bytes and the
  announced number of data bytes to the data FIFO, \<open>TPM_STAT_GO\<close> to the status register. On
  success all of them have been written, on an error a prefix; the error is a timeout, a
  transport error or \<open>TPM_INVALID_PARAM\<close>.
\<close>

theorem send_transmits:
  "wp True True (tpm2_fifo_send bo (Some chip) buf)
     (\<lambda>rc t. \<exists>tr. reg_run s tr t \<and> sent bo (LOCALITY_START_ADDRESS (locality chip)) buf rc tr) s"
  by (rule wp_partialI) (rule tracedD [OF traced_send [OF refl]])

text \<open>
  C18: with a timer that runs out, and provided that the size in the header of the command is
  covered by the buffer, \<^verbatim>\<open>tpm2_fifo_send\<close> returns whatever the TPM and the SPI platform answer,
  and stays inside the buffer. The function has no upper check of that size: the proviso is
  the builder's, which never lets the size exceed the buffer.
\<close>

theorem send_returns:
  assumes "fair_timer D T left" and "ready D T s" and "timeouts chip = Some tm" and "sendable bo buf"
  shows "\<exists>rc t. tpm2_fifo_send bo (Some chip) buf s = Some (Inr (rc, t))"
  using fair_timer.send_live [OF assms(1-3)] assms(4) unfolding sendable_def wp_total_iff by blast

theorem send_returns_witness:
  "\<exists>rc t. tpm2_fifo_send Little_Endian (Some sim_chip) zero_cmd (sim [] 0) = Some (Inr (rc, t))"
  by (rule send_returns [OF ticking.fair_timer_axioms ready_sim])
    (simp_all add: sendable_def zero_cmd_def be32toh_def bswap32_def)

text \<open>
  C2: whenever \<^verbatim>\<open>tpm2_fifo_receive\<close> returns without an error, the first ten bytes read from
  the data FIFO, by whatever kind of register read, are the header in the buffer, the size they announce is at most the size of
  the buffer, and the bytes read after them are the start of the data array, at least as many
  as announced; nothing has been written to the TPM.
\<close>

definition receive_outcome ::
  "byte_order \<Rightarrow> u16 \<Rightarrow> tpm_cmd \<Rightarrow> int \<Rightarrow> tpm_cmd \<Rightarrow> reg_op list \<Rightarrow> bool" where
  "receive_outcome bo base buf rc buf' tr \<longleftrightarrow>
     reg_writes tr = [] \<and>
     (if rc < 0 then io_code rc \<or> rc = TPM_INVALID_PARAM
      else \<exists>hs ds. reg_reads (fifo_addr base) tr = hs @ ds \<and> got_response bo buf rc buf' hs ds)"

theorem receive_stores:
  "wp True True (tpm2_fifo_receive bo (Some chip) buf)
     (\<lambda>(rc, buf') t. \<exists>tr. reg_run s tr t \<and>
        receive_outcome bo (LOCALITY_START_ADDRESS (locality chip)) buf rc buf' tr) s"
  by (rule wp_partialI) (auto simp: receive_outcome_def dest!: tracedD [OF traced_receive [OF refl]])


text \<open>
  C3: an exchange (\<^verbatim>\<open>tpm_xfer\<close>) that succeeds has first transmitted the whole command and
  then, without a further write, read a response into the buffer; one that fails has written
  a prefix of the transmission.
\<close>

theorem xfer_exchanges:
  "traced (tpm_xfer bo (Some chip) cmd buf) (exchanged bo (LOCALITY_START_ADDRESS (locality chip)) cmd buf)"
  by (rule traced_xfer [OF refl])

text \<open>
  C21: an exchange leaves the transport, the timer and the operation table as
  \<^verbatim>\<open>tpm_interface_init\<close> has set them, and never clears a recorded transport error.
\<close>

theorem xfer_keeps_globals:
  "wp True True (tpm_xfer bo (Some chip) cmd buf) (\<lambda>_ t. same_globals s t \<and> error_kept s t) s"
  by (rule wp_partialI) (auto dest!: tracedD [OF traced_xfer [OF refl]] dest: run_globals)

text \<open>
  C19: with a timer that runs out, \<^verbatim>\<open>tpm2_fifo_receive\<close> never hangs; it stays inside its
  buffer unless the header it has read announces more bytes than the data array holds.
\<close>

theorem receive_ends:
  assumes "fair_timer D T left" and "ready D T s" and "timeouts chip = Some tm"
  shows "\<exists>out. tpm2_fifo_receive bo (Some chip) buf s = Some out \<and>
    ((\<exists>a t. out = Inr (a, t)) \<or>
     (\<exists>b sz t. tpm2_fifo_read_data bo (Some chip) buf (LOCALITY_START_ADDRESS (locality chip)) 0 0
        TPM_READ_HEADER s = Some (Inr ((0, b, sz), t)) \<and> too_long bo b))"
proof (cases "\<exists>b sz t. tpm2_fifo_read_data bo (Some chip) buf (LOCALITY_START_ADDRESS (locality chip)) 0 0
        TPM_READ_HEADER s = Some (Inr ((0, b, sz), t)) \<and> too_long bo b")
  case True
  have "wp False True (tpm2_fifo_receive bo (Some chip) buf) (\<lambda>_. fair_timer.onward D T left s) s"
    by (rule fair_timer.receive_live [OF assms]) simp
  with True show ?thesis by (auto simp: wp_def split: option.splits)
next
  case False
  have "wp False False (tpm2_fifo_receive bo (Some chip) buf) (\<lambda>_. fair_timer.onward D T left s) s"
    by (rule fair_timer.receive_live [OF assms]) (use False in blast)
  then show ?thesis unfolding wp_total_iff by blast
qed

theorem receive_ends_witness:
  "\<exists>out. tpm2_fifo_receive Little_Endian (Some sim_chip) zero_cmd (sim [] 0) = Some out \<and>
    ((\<exists>a t. out = Inr (a, t)) \<or>
     (\<exists>b sz t. tpm2_fifo_read_data Little_Endian (Some sim_chip) zero_cmd (LOCALITY_START_ADDRESS (locality sim_chip)) 0 0
        TPM_READ_HEADER (sim [] 0) = Some (Inr ((0, b, sz), t)) \<and> too_long Little_Endian b))"
  by (rule receive_ends [OF ticking.fair_timer_axioms ready_sim]) simp

text \<open>
  C20: the exception in the previous property happens. When a TPM announces a response of 247
  to 256 bytes, which the size check accepts, and then a burst count of 255, the receive loop
  stores a byte behind the end of the data array: it compares the index into the data with
  the size of the whole response.
\<close>

theorem receive_overflow:
  assumes "wf_cmd buf" and "length hs = TPM_HEADER_SIZE" and "length ds = MAX_CMD_DATA"
    and "MAX_CMD_DATA < announced hs" and "announced hs \<le> sizeof_tpm_cmd" and "timeouts chip = Some tm"
  shows "tpm2_fifo_receive bo (Some chip) buf (sim (0x10 # 10 # 0 # hs @ 0x10 # 0xFF # 0 # ds @ rest) 0) =
    Some (Inl Out_Of_Bounds)"
  using sim_receive_overflow [of buf hs ds chip tm 0 bo rest] assms by simp

theorem receive_overflow_witness:
  "tpm2_fifo_receive Little_Endian (Some sim_chip) zero_cmd
     (sim (0x10 # 10 # 0 # [0x80, 1, 0, 0, 1, 0, 0, 0, 0, 0] @ 0x10 # 0xFF # 0 # replicate 246 0 @ [7]) 0) =
   Some (Inl Out_Of_Bounds)"
  by (rule receive_overflow [OF wf_zero_cmd]) (simp_all add: announced_def of_be32_def)

section \<open>Commands\<close>

text \<open>
  C8: \<^verbatim>\<open>tpm_startup\<close> transmits the startup command with the given mode, in one exchange. If the
  exchange fails it returns the code of the failure. If it succeeds the response code decides:
  \<open>TPM_RC_INITIALIZE\<close> gives \<open>TPM_ERR_ALREADY_INIT\<close>, 0 gives success, any other code
  \<open>TPM_ERR_RESPONSE\<close>.
\<close>

theorem startup_does:
  "wp True True (tpm_startup bo (Some chip) mode)
    (outcome bo chip zero_cmd (wire TPM_ST_NO_SESSIONS TPM_CMD_STARTUP (be16 mode)) startup_code (\<lambda>rc. rc) s) s"
  by (rule startup_outcome)

text \<open>
  C7: \<^verbatim>\<open>tpm_pcr_extend\<close> transmits, in one exchange, the PCR index, an empty password session, the
  algorithm and the first \<^verbatim>\<open>digest_len\<close> bytes of the digest. If the exchange fails it returns the
  code of the failure; if it succeeds, success for the response code 0 and \<open>TPM_ERR_RESPONSE\<close>
  for every other one. A command that is too long is refused without an exchange.
\<close>

theorem extend_does:
  assumes "unat n \<le> length dig"
  shows "wp True True (tpm_pcr_extend bo (Some chip) index algorithm (Some dig) n)
    (outcome bo chip zero_cmd
       (wire TPM_ST_SESSIONS TPM_CMD_PCR_EXTEND (extend_bytes index algorithm (take (unat n) dig)))
       extend_code (\<lambda>rc. rc) s) s"
  by (rule extend_outcome [OF assms])

definition extend_sim :: "(byte list \<times> nat) tpm_lib" where
  "extend_sim = sim (command_script 55 @ reply_script [0x80, 2, 0, 0, 0, 19, 0, 0, 0, 0] (replicate 9 0)) 0"

theorem extend_does_witness:
  "tpm_pcr_extend Little_Endian (Some sim_chip) 7 0xB (Some (replicate 32 0xAA)) 32 extend_sim = Some (Inr (TPM_SUCCESS, sim [] 6)) \<and>
   wp True True (tpm_pcr_extend Little_Endian (Some sim_chip) 7 0xB (Some (replicate 32 0xAA)) 32)
    (outcome Little_Endian sim_chip zero_cmd
       (wire TPM_ST_SESSIONS TPM_CMD_PCR_EXTEND (extend_bytes 7 0xB (take (unat (32 :: u32)) (replicate 32 0xAA))))
       extend_code (\<lambda>rc. rc) extend_sim) extend_sim"
proof
  show "tpm_pcr_extend Little_Endian (Some sim_chip) 7 0xB (Some (replicate 32 0xAA)) 32 extend_sim = Some (Inr (TPM_SUCCESS, sim [] 6))"
    using sim_extend [of 32 "replicate 32 0xAA" "[0x80, 2, 0, 0, 0, 19, 0, 0, 0, 0]" "replicate 9 0" sim_chip]
    by (simp add: extend_sim_def announced_def of_be32_def extend_code_def response_code_def del: replicate.simps)
qed (rule extend_does, simp)

text \<open>
  C22: a digest that does not fit into the command buffer behind its 33 bytes of header and
  parameters is rejected with \<open>TPM_INVALID_PARAM\<close> and without any access to the TPM.
\<close>

theorem extend_rejects_long:
  assumes "unat n \<le> length dig" and "MAX_SIZE_CMDBUF < 33 + unat n"
  shows "tpm_pcr_extend bo chip index algorithm (Some dig) n = ret TPM_INVALID_PARAM"
  by (rule extend_too_long [OF assms])

theorem extend_rejects_long_witness:
  "tpm_pcr_extend Little_Endian (Some sim_chip) 7 0xB (Some (replicate 224 0)) 224 (sim [] 0) =
    ret TPM_INVALID_PARAM (sim [] 0)"
  by (subst extend_rejects_long) simp_all

text \<open>
  C6: \<^verbatim>\<open>tpm_pcr_read_single\<close> with an index below 24 asks, in one exchange, for the one PCR, its
  bit set in the three-byte mask. On success it leaves the digest of the response, padded with
  zeros, in the caller's buffer; on every error the buffer is zero. The digest is accepted only
  if it lies inside the announced response and fits into the buffer. With any other index it
  returns \<open>TPM_INVALID_PARAM\<close>, does not access the TPM and leaves the buffer as it is.
\<close>

theorem read_does:
  assumes "wf_cmd junk" and "unat n \<le> length out"
  shows "wp True True (tpm_pcr_read_single bo junk (Some chip) index algorithm (Some out) n)
    (\<lambda>r t. if index < 24
       then outcome bo chip junk (wire TPM_ST_NO_SESSIONS TPM_CMD_PCR_READ (read_bytes index algorithm))
         (read_outcome out n) (\<lambda>rc. (rc, Some (overlay out 0 (replicate (unat n) 0)))) s r t
       else r = (TPM_INVALID_PARAM, Some out) \<and> t = s) s"
  by (rule read_single_outcome [OF assms])

definition read_sim :: "(byte list \<times> nat) tpm_lib" where
  "read_sim = sim (command_script 10 @ reply_script [0x80, 1, 0, 0, 0, 62, 0, 0, 0, 0] (replicate 18 0 @ [0, 32] @ replicate 32 7)) 0"

theorem read_does_witness:
  "tpm_pcr_read_single Little_Endian zero_cmd (Some sim_chip) 23 0xB (Some (replicate 48 1)) 48 read_sim =
     Some (Inr ((TPM_SUCCESS, Some (replicate 32 7 @ replicate 16 0)), sim [] 6)) \<and>
   wp True True (tpm_pcr_read_single Little_Endian zero_cmd (Some sim_chip) 23 0xB (Some (replicate 48 1)) 48)
    (\<lambda>r t. if (23 :: u32) < 24
       then outcome Little_Endian sim_chip zero_cmd (wire TPM_ST_NO_SESSIONS TPM_CMD_PCR_READ (read_bytes 23 0xB))
         (read_outcome (replicate 48 1) 48) (\<lambda>rc. (rc, Some (overlay (replicate 48 1) 0 (replicate (unat (48 :: u64)) 0)))) read_sim r t
       else r = (TPM_INVALID_PARAM, Some (replicate 48 1)) \<and> t = read_sim) read_sim"
proof
  show "tpm_pcr_read_single Little_Endian zero_cmd (Some sim_chip) 23 0xB (Some (replicate 48 1)) 48 read_sim =
     Some (Inr ((TPM_SUCCESS, Some (replicate 32 7 @ replicate 16 0)), sim [] 6))"
    using sim_read_single [of 23 48 "replicate 48 1" zero_cmd "[0x80, 1, 0, 0, 0, 62, 0, 0, 0, 0]"
        "replicate 18 0 @ [0, 32] @ replicate 32 7" sim_chip, OF _ _ wf_zero_cmd]
    by (simp add: read_sim_def announced_def of_be32_def of_be16_def read_outcome_def digest_of_def response_code_def
        overlay_def Let_def nth_append del: replicate_Suc)
qed (rule read_does [OF wf_zero_cmd], simp)

text \<open>
  C9: \<^verbatim>\<open>tpm_pcr_allocate_auth_password\<close> transmits the platform handle, the password session,
  the number of banks in front of the terminator and those banks, in one exchange; its outputs
  are the four values at their places in a complete response, and unchanged otherwise.
\<close>

theorem allocate_does:
  assumes "unat n = length pw" and "\<forall>b \<in> set banks. length (ab_pcr_select b) = 3"
    and "terminated ab_hash_alg TPM_MAX_PCR_SELECTIONS banks" and "listed_banks banks \<noteq> []"
  shows "wp True True
    (tpm_pcr_allocate_auth_password bo (Some chip) (Some pw) n (Some banks) (Some a) (Some b) (Some c) (Some d))
    (outcome bo chip zero_cmd (wire TPM_ST_SESSIONS TPM_CMD_PCR_ALLOCATE (allocate_bytes pw (listed_banks banks)))
       (allocate_outcome a b c d) (\<lambda>rc. (rc, Some a, Some b, Some c, Some d)) s) s"
  by (rule allocate_outcomes [OF assms])

definition sim_banks :: "tpm_pcr_allocate_bank_t list" where
  "sim_banks = [\<lparr>ab_hash_alg = 0xB, ab_pcr_select = [0xFF, 0xFF, 0xFF]\<rparr>, \<lparr>ab_hash_alg = TPM_ALG_NULL, ab_pcr_select = [0, 0, 0]\<rparr>]"

theorem allocate_does_witness:
  "wp True True
    (tpm_pcr_allocate_auth_password Little_Endian (Some sim_chip) (Some [1, 2, 3]) 3 (Some sim_banks) (Some False) (Some 0) (Some 0) (Some 0))
    (outcome Little_Endian sim_chip zero_cmd
       (wire TPM_ST_SESSIONS TPM_CMD_PCR_ALLOCATE (allocate_bytes [1, 2, 3] (listed_banks sim_banks)))
       (allocate_outcome False 0 0 0) (\<lambda>rc. (rc, Some False, Some 0, Some 0, Some 0)) (sim [] 0)) (sim [] 0)"
  by (rule allocate_does) (simp_all add: sim_banks_def terminated_def listed_banks_def)

text \<open>
  C16: with a timer that runs out, every command ends: it never hangs, and if the TPM announces
  no response longer than the data array it returns without a memory error.
\<close>

definition settles :: "bool \<Rightarrow> ('s, 'a) op \<Rightarrow> 's \<Rightarrow> bool" where
  "settles safe m s \<longleftrightarrow> m s \<noteq> None \<and> (safe \<longrightarrow> (\<exists>r t. m s = Some (Inr (r, t))))"

lemma settlesI:
  assumes "\<And>f. (\<not> f \<Longrightarrow> safe) \<Longrightarrow> wp False f m (Q f) s"
  shows "settles safe m s"
  using assms [of True] assms [of False]
  by (auto simp: settles_def wp_def split: option.splits sum.splits)

theorem commands_settle:
  assumes "fair_timer D T left" and "opened_lib D T s" and "timeouts chip = Some tm"
    and "unat n \<le> length dig" and "wf_cmd junk" and "unat k \<le> length out" and "unat pn = length pw"
    and "\<forall>x \<in> set banks. length (ab_pcr_select x) = 3" and "terminated ab_hash_alg TPM_MAX_PCR_SELECTIONS banks"
  shows "settles (short_responses bo chip D T) (tpm_startup bo (Some chip) mode) s \<and>
    settles (short_responses bo chip D T) (tpm_pcr_extend bo (Some chip) index algorithm (Some dig) n) s \<and>
    settles (short_responses bo chip D T) (tpm_pcr_read_single bo junk (Some chip) index algorithm (Some out) k) s \<and>
    settles (short_responses bo chip D T) (tpm_pcr_allocate_auth_password bo (Some chip) (Some pw) pn (Some banks) (Some a) (Some b) (Some c) (Some d)) s"
  by (intro conjI settlesI)
    (erule fair_timer.startup_live [OF assms(1-3)] fair_timer.extend_live [OF assms(1-3) _ assms(4)]
      fair_timer.read_single_live [OF assms(1-3) _ assms(5,6)] fair_timer.allocate_live [OF assms(1-3) _ assms(7-9)])+

definition const_safe :: bool where
  "const_safe = short_responses Little_Endian sim_chip (with_clock (const_ops 0x10)) (tpm_lib_timeout_ops read_clock)"

theorem commands_settle_witness:
  "const_safe \<and> settles const_safe (tpm_startup Little_Endian (Some sim_chip) 0) (const_sim 0x10) \<and>
    settles const_safe (tpm_pcr_extend Little_Endian (Some sim_chip) 7 0xB (Some [1]) 1) (const_sim 0x10) \<and>
    settles const_safe (tpm_pcr_read_single Little_Endian zero_cmd (Some sim_chip) 7 0xB (Some [1]) 1) (const_sim 0x10) \<and>
    settles const_safe (tpm_pcr_allocate_auth_password Little_Endian (Some sim_chip) (Some [1]) 1 (Some sim_banks)
      (Some False) (Some 0) (Some 0) (Some 0)) (const_sim 0x10)"
  unfolding const_safe_def
  by (rule conjI [OF const_short_responses commands_settle [OF ticking.fair_timer_axioms opened_const]])
    (simp_all add: sim_banks_def terminated_def)

section \<open>Capability queries\<close>

text \<open>
  C10: a query of algorithms asks page after page, each behind the last algorithm of the one
  before, at most 64 of them, until the TPM has no more or none that is asked for. On success
  an algorithm of the query is enabled exactly if some page has listed it.
\<close>

theorem query_algs_does:
  assumes "terminated alg_id TPM_MAX_ALG_PROPERTIES q"
  shows "traced (tpm_getcap_query_algs bo (Some chip) (Some q))
    (query_outcome bo alg_page TPM_CAP_ALGS (LOCALITY_START_ADDRESS (locality chip)) alg_id alg_answer q)"
  by (rule traced_query_algs [OF refl assms])

definition sim_algs :: "tpm_alg_query_t list" where
  "sim_algs = [\<lparr>alg_id = 0xB, enabled = True\<rparr>, \<lparr>alg_id = TPM_ALG_NULL, enabled = False\<rparr>]"

definition sim_pcrs :: "tpm_pcr_bank_query_t list" where
  "sim_pcrs = [\<lparr>bq_hash_alg = 0xB, bq_pcr_select = [1, 2, 3]\<rparr>, \<lparr>bq_hash_alg = TPM_ALG_NULL, bq_pcr_select = [0, 0, 0]\<rparr>]"

lemma sim_terminated:
  "terminated alg_id TPM_MAX_ALG_PROPERTIES sim_algs" "terminated bq_hash_alg TPM_MAX_PCR_SELECTIONS sim_pcrs"
  by (simp_all add: sim_algs_def sim_pcrs_def terminated_def)

theorem query_algs_does_witness:
  "traced (tpm_getcap_query_algs Little_Endian (Some sim_chip) (Some sim_algs))
    (query_outcome Little_Endian alg_page TPM_CAP_ALGS (LOCALITY_START_ADDRESS (locality sim_chip)) alg_id alg_answer sim_algs)"
  by (rule query_algs_does [OF sim_terminated(1)])

text \<open>
  C11: a query of PCR banks does the same; on success a bank of the query has the mask of the
  last entry for its hash, or zeros if no page has listed it.
\<close>

theorem query_pcrs_does:
  assumes "terminated bq_hash_alg TPM_MAX_PCR_SELECTIONS q"
  shows "traced (tpm_getcap_query_pcrs bo (Some chip) (Some q))
    (query_outcome bo pcr_page TPM_CAP_PCRS (LOCALITY_START_ADDRESS (locality chip)) bq_hash_alg pcr_answer q)"
  by (rule traced_query_pcrs [OF refl assms])

theorem query_pcrs_does_witness:
  "traced (tpm_getcap_query_pcrs Little_Endian (Some sim_chip) (Some sim_pcrs))
    (query_outcome Little_Endian pcr_page TPM_CAP_PCRS (LOCALITY_START_ADDRESS (locality sim_chip)) bq_hash_alg pcr_answer sim_pcrs)"
  by (rule query_pcrs_does [OF sim_terminated(2)])

text \<open>
  C23: a list of queries without a terminator among its first entries is rejected with
  \<open>TPM_INVALID_PARAM\<close> and without any access to the TPM.
\<close>

theorem query_unterminated:
  assumes "TPM_MAX_ALG_PROPERTIES \<le> length qa" and "\<not> terminated alg_id TPM_MAX_ALG_PROPERTIES qa"
    and "TPM_MAX_PCR_SELECTIONS \<le> length qp" and "\<not> terminated bq_hash_alg TPM_MAX_PCR_SELECTIONS qp"
  shows "(\<exists>q'. tpm_getcap_query_algs bo (Some chip) (Some qa) s = Some (Inr ((TPM_INVALID_PARAM, Some q'), s))) \<and>
    (\<exists>q'. tpm_getcap_query_pcrs bo (Some chip) (Some qp) s = Some (Inr ((TPM_INVALID_PARAM, Some q'), s)))"
  using query_algs_unterminated [OF assms(1,2), of bo chip] query_pcrs_unterminated [OF assms(3,4), of bo chip]
  by (auto simp: ret_def fun_eq_iff)

theorem query_unterminated_witness:
  "(\<exists>q'. tpm_getcap_query_algs Little_Endian (Some sim_chip) (Some (replicate 64 (sim_algs ! 0))) (sim [] 0) =
      Some (Inr ((TPM_INVALID_PARAM, Some q'), sim [] 0))) \<and>
   (\<exists>q'. tpm_getcap_query_pcrs Little_Endian (Some sim_chip) (Some (replicate 16 (sim_pcrs ! 0))) (sim [] 0) =
      Some (Inr ((TPM_INVALID_PARAM, Some q'), sim [] 0)))"
  by (rule query_unterminated) (simp_all add: terminated_def sim_algs_def sim_pcrs_def)

text \<open>
  C14: \<^verbatim>\<open>tpm_has_alg\<close> answers whether the pages it has read list the algorithm, and leaves the
  caller's variable alone on an error; it starts at most 64 commands.
\<close>

theorem has_alg_does:
  assumes "alg \<noteq> TPM_ALG_NULL"
  shows "traced (tpm_has_alg bo (Some chip) alg (Some old))
    (has_alg_outcome bo (LOCALITY_START_ADDRESS (locality chip)) alg old)"
  by (rule traced_has_alg [OF refl assms])

theorem has_alg_does_witness:
  "traced (tpm_has_alg Little_Endian (Some sim_chip) 0xB (Some False))
    (has_alg_outcome Little_Endian (LOCALITY_START_ADDRESS (locality sim_chip)) 0xB False)"
  by (rule has_alg_does) simp

text \<open>
  C4: if the TPM lists its algorithms \<open>L\<close> in ascending order, as the paging of the code
  presumes (every page holds the next entries of \<open>L\<close> and tells whether others follow), then
  the answer of a successful \<^verbatim>\<open>tpm_has_alg\<close> is exactly whether the TPM has the algorithm,
  although the loop stops as soon as it has passed it. The algorithm is not \<open>TPM_ALG_NULL\<close>,
  which ends the list of queries.
\<close>

theorem has_alg_exact:
  assumes "alg \<noteq> TPM_ALG_NULL" and "ascending L"
  shows "traced (tpm_has_alg bo (Some chip) alg (Some old)) (\<lambda>(rc, supported) tr. rc = TPM_SUCCESS \<longrightarrow>
    (\<exists>ps. paged bo (alg_page bo) TPM_CAP_ALGS (\<lambda>k. k < alg) (LOCALITY_START_ADDRESS (locality chip)) 0 ps tr \<and>
       supported = Some (alg \<in> fst ` set (entries ps)) \<and>
       ((\<forall>p \<in> set ps. honest_page L p) \<longrightarrow> supported = Some (alg \<in> fst ` set L))))"
proof (rule traced_mono [OF traced_has_alg [OF refl assms(1)]], clarify, goal_cases)
  case (1 rc supported tr)
  then obtain ps where ps: "paged bo (alg_page bo) TPM_CAP_ALGS (\<lambda>k. k < alg) (LOCALITY_START_ADDRESS (locality chip)) 0 ps tr"
    "query_end alg (last ps)" "supported = Some (alg \<in> fst ` set (entries ps))"
    by (auto simp: has_alg_outcome_def)
  with paged_exact [OF ps(1,2) _ assms(2), of alg] show ?case by (intro exI [of _ ps]) simp
qed

definition sim_list :: "(u16 \<times> u32) list" where
  "sim_list = [(1, 9), (0xB, 4)]"

theorem has_alg_exact_witness:
  "tpm_has_alg Little_Endian (Some sim_chip) 0xB (Some False) (sim (alg_script True [(1, 9)] @ alg_script False [(0xB, 4)]) 0) =
     Some (Inr ((TPM_SUCCESS, Some True), sim [] 12)) \<and>
   traced (tpm_has_alg Little_Endian (Some sim_chip) 0xB (Some False)) (\<lambda>(rc, supported) tr. rc = TPM_SUCCESS \<longrightarrow>
    (\<exists>ps. paged Little_Endian (alg_page Little_Endian) TPM_CAP_ALGS (\<lambda>k. k < 0xB) (LOCALITY_START_ADDRESS (locality sim_chip)) 0 ps tr \<and>
       supported = Some (0xB \<in> fst ` set (entries ps)) \<and>
       ((\<forall>p \<in> set ps. honest_page sim_list p) \<longrightarrow> supported = Some (0xB \<in> fst ` set sim_list))))"
proof
  show "tpm_has_alg Little_Endian (Some sim_chip) 0xB (Some False) (sim (alg_script True [(1, 9)] @ alg_script False [(0xB, 4)]) 0) =
     Some (Inr ((TPM_SUCCESS, Some True), sim [] 12))"
    by (subst sim_has_alg) simp_all
qed (rule has_alg_exact, simp_all add: ascending_def sim_list_def)


text \<open>
  C12: \<^verbatim>\<open>tpm_for_each_alg_props\<close> calls the callback on the entries of the pages, in order,
  those whose properties pass both masks, until it returns true; no page is asked for after
  that, and at most 64 in all. On success without a hit the last page was complete and final.
\<close>

theorem for_each_alg_does:
  "traced (tpm_for_each_alg_props bo (Some chip) mset mclr (Some cb) ctx)
    (search_done bo alg_page TPM_CAP_ALGS (alg_visitor mset mclr cb) (LOCALITY_START_ADDRESS (locality chip))
       TPM_MAX_PAGES 0 ctx)"
  by (rule traced_for_each_alg [OF refl])

text \<open>
  C13: \<^verbatim>\<open>tpm_for_each_pcr_bank\<close> does the same with the PCR banks and their masks.
\<close>

theorem for_each_pcr_does:
  "traced (tpm_for_each_pcr_bank bo (Some chip) (Some cb) ctx)
    (search_done bo pcr_page TPM_CAP_PCRS (pcr_visitor cb) (LOCALITY_START_ADDRESS (locality chip)) TPM_MAX_PAGES 0 ctx)"
  by (rule traced_for_each_pcr [OF refl])

text \<open>
  C5: over a TPM that lists its algorithms \<open>L\<close> in ascending order, a
  \<^verbatim>\<open>tpm_for_each_alg_props\<close> that returns \<open>TPM_SUCCESS\<close> leaves the context that visiting \<open>L\<close> itself, up to the first
  hit, would leave: paging is invisible to the callback.
\<close>

theorem for_each_alg_exact:
  assumes "ascending L"
  shows "traced (tpm_for_each_alg_props bo (Some chip) mset mclr (Some cb) ctx) (\<lambda>(rc, ctx') tr. rc = TPM_SUCCESS \<longrightarrow>
    (\<exists>ps. paged bo (alg_page bo) TPM_CAP_ALGS (\<lambda>_. True) (LOCALITY_START_ADDRESS (locality chip)) 0 ps tr \<and>
       ctx' = snd (snd (visit (alg_visitor mset mclr cb) (entries ps) ctx)) \<and>
       ((\<forall>p \<in> set ps. honest_page L p) \<longrightarrow> ctx' = snd (snd (visit (alg_visitor mset mclr cb) L ctx)))))"
proof (rule traced_mono [OF traced_for_each_alg [OF refl]], clarify, goal_cases)
  case (1 rc ctx' tr)
  then obtain ps where ps: "paged bo (alg_page bo) TPM_CAP_ALGS (\<lambda>_. True) (LOCALITY_START_ADDRESS (locality chip)) 0 ps tr"
    "search_end (alg_visitor mset mclr cb) ctx ps ctx'"
    by (auto simp: search_done_def)
  from ps(2) have "ctx' = snd (snd (visit (alg_visitor mset mclr cb) (entries ps) ctx))"
    by (auto simp: search_end_def split: prod.splits)
  with ps(1) search_exact [OF ps _ assms] show ?case by blast
qed

definition sim_count :: "nat alg_cb" where
  "sim_count = (\<lambda>alg props n. (False, n + 1))"

definition sim_page :: "u32 \<Rightarrow> (u16 \<times> u32) list \<Rightarrow> bool \<Rightarrow> u32 cap_page" where
  "sim_page property es m = \<lparr>cp_property = property, cp_entries = es, cp_more = m, cp_whole = True\<rparr>"

theorem for_each_alg_exact_witness:
  "honest_page sim_list (sim_page 0 [(1, 9)] True) \<and> honest_page sim_list (sim_page 2 [(0xB, 4)] False) \<and>
   tpm_for_each_alg_props Little_Endian (Some sim_chip) 4 0 (Some sim_count) 0
     (sim (alg_script True [(1, 9)] @ alg_script False [(0xB, 4)]) 0) = Some (Inr ((TPM_SUCCESS, 1), sim [] 12)) \<and>
   (\<exists>tr ps. reg_run (sim (alg_script True [(1, 9)] @ alg_script False [(0xB, 4)]) 0) tr (sim [] 12) \<and>
      paged Little_Endian (alg_page Little_Endian) TPM_CAP_ALGS (\<lambda>_. True) (LOCALITY_START_ADDRESS (locality sim_chip)) 0 ps tr \<and>
      1 = snd (snd (visit (alg_visitor 4 0 sim_count) (entries ps) 0)) \<and>
      ((\<forall>p \<in> set ps. honest_page sim_list p) \<longrightarrow> 1 = snd (snd (visit (alg_visitor 4 0 sim_count) sim_list 0))))"
proof (intro conjI)
  have "tpm_for_each_alg_props Little_Endian (Some sim_chip) 4 0 (Some sim_count) 0
      (sim (alg_script True [(1, 9)] @ alg_script False [(0xB, 4)]) 0) = Some (Inr ((TPM_SUCCESS, 1), sim [] 12))"
    by (rule sim_for_each_alg) (simp_all add: alg_visitor_def props_match_def sim_count_def)
  moreover have "ascending sim_list" by (simp add: ascending_def sim_list_def)
  note tracedD [OF for_each_alg_exact [OF this]]
  ultimately show "tpm_for_each_alg_props Little_Endian (Some sim_chip) 4 0 (Some sim_count) 0
      (sim (alg_script True [(1, 9)] @ alg_script False [(0xB, 4)]) 0) = Some (Inr ((TPM_SUCCESS, 1), sim [] 12))"
    "\<exists>tr ps. reg_run (sim (alg_script True [(1, 9)] @ alg_script False [(0xB, 4)]) 0) tr (sim [] 12) \<and>
      paged Little_Endian (alg_page Little_Endian) TPM_CAP_ALGS (\<lambda>_. True) (LOCALITY_START_ADDRESS (locality sim_chip)) 0 ps tr \<and>
      1 = snd (snd (visit (alg_visitor 4 0 sim_count) (entries ps) 0)) \<and>
      ((\<forall>p \<in> set ps. honest_page sim_list p) \<longrightarrow> 1 = snd (snd (visit (alg_visitor 4 0 sim_count) sim_list 0)))"
    by fastforce+
qed (simp_all add: honest_page_def sim_page_def sim_list_def word_le_nat_alt)

text \<open>
  C17: with a timer that runs out, every capability query and iteration ends, and returns
  without a memory error if the TPM announces no response longer than the data array.
\<close>

theorem queries_settle:
  assumes "fair_timer D T left" and "timeouts chip = Some tm" and "opened_lib D T s"
    and "terminated alg_id TPM_MAX_ALG_PROPERTIES qa" and "terminated bq_hash_alg TPM_MAX_PCR_SELECTIONS qp"
  shows "settles (short_responses bo chip D T) (tpm_getcap_query_algs bo (Some chip) (Some qa)) s \<and>
    settles (short_responses bo chip D T) (tpm_getcap_query_pcrs bo (Some chip) (Some qp)) s \<and>
    settles (short_responses bo chip D T) (tpm_has_alg bo (Some chip) alg (Some old)) s \<and>
    settles (short_responses bo chip D T) (tpm_get_alg_props bo (Some chip) alg (Some old) (Some old_props)) s \<and>
    settles (short_responses bo chip D T) (tpm_for_each_alg_props bo (Some chip) mset mclr (Some acb) actx) s \<and>
    settles (short_responses bo chip D T) (tpm_for_each_pcr_bank bo (Some chip) (Some pcb) pctx) s"
  by (intro conjI settlesI)
    (erule fair_timer.query_algs_live [OF assms(1,2) _ assms(3,4)] fair_timer.query_pcrs_live [OF assms(1,2) _ assms(3,5)]
      fair_timer.has_alg_live [OF assms(1,2) _ assms(3)] fair_timer.get_alg_props_live [OF assms(1,2) _ assms(3)]
      fair_timer.for_each_alg_live [OF assms(1,2) _ assms(3)] fair_timer.for_each_pcr_live [OF assms(1,2) _ assms(3)])+

theorem queries_settle_witness:
  "const_safe \<and> settles const_safe (tpm_getcap_query_algs Little_Endian (Some sim_chip) (Some sim_algs)) (const_sim 0x10) \<and>
    settles const_safe (tpm_getcap_query_pcrs Little_Endian (Some sim_chip) (Some sim_pcrs)) (const_sim 0x10) \<and>
    settles const_safe (tpm_has_alg Little_Endian (Some sim_chip) 0xB (Some False)) (const_sim 0x10) \<and>
    settles const_safe (tpm_get_alg_props Little_Endian (Some sim_chip) 0xB (Some False) (Some 0)) (const_sim 0x10) \<and>
    settles const_safe (tpm_for_each_alg_props Little_Endian (Some sim_chip) 0 0 (Some (\<lambda>a p c. (True, c))) ()) (const_sim 0x10) \<and>
    settles const_safe (tpm_for_each_pcr_bank Little_Endian (Some sim_chip) (Some (\<lambda>h m c. (True, c))) ()) (const_sim 0x10)"
  unfolding const_safe_def
  by (rule conjI [OF const_short_responses queries_settle [OF ticking.fair_timer_axioms _ opened_const sim_terminated]]) simp

section \<open>Parsing responses\<close>

text \<open>
  C24: \<^verbatim>\<open>parse_algs\<close> refines the decoding of a page on byte lists: it marks the queries that a
  decoded entry names, up to the terminator, and reports the number of entries and the last
  algorithm exactly if all announced entries are there; otherwise it fails with
  \<open>TPM_ERR_RESPONSE\<close>, never reading outside the announced response.
\<close>

theorem parse_algs_decodes:
  assumes "wf_cmd r" and "terminated alg_id TPM_MAX_ALG_PROPERTIES query"
  shows "parse_algs bo (Some r) query (Some c) (Some l) = ret (query_result alg_upd (alg_page bo r) query c l)"
  by (rule parse_algs_refines [OF assms])

theorem parse_algs_decodes_witness:
  "parse_algs Little_Endian (Some zero_cmd) sim_algs (Some 0) (Some 0) =
    ret (query_result alg_upd (alg_page Little_Endian zero_cmd) sim_algs 0 0)"
  by (rule parse_algs_decodes [OF wf_zero_cmd sim_terminated(1)])

text \<open>C25: \<^verbatim>\<open>parse_pcrs\<close> refines the decoding of a page of PCR selections in the same way.\<close>

theorem parse_pcrs_decodes:
  assumes "wf_cmd r" and "terminated bq_hash_alg TPM_MAX_PCR_SELECTIONS query"
  shows "parse_pcrs bo (Some r) query (Some c) (Some l) = ret (query_result mark_pcr (pcr_page bo r) query c l)"
  by (rule parse_pcrs_refines [OF assms])

theorem parse_pcrs_decodes_witness:
  "parse_pcrs Little_Endian (Some zero_cmd) sim_pcrs (Some 0) (Some 0) =
    ret (query_result mark_pcr (pcr_page Little_Endian zero_cmd) sim_pcrs 0 0)"
  by (rule parse_pcrs_decodes [OF wf_zero_cmd sim_terminated(2)])

text \<open>
  C26: the two parsers with a callback visit the decoded entries in order until the callback
  stops, and report how many they have visited, the last one and whether it stopped.
\<close>

theorem parse_find_decodes:
  assumes "wf_cmd r"
  shows "(\<exists>res. parse_algs_find bo (Some r) mset mclr (Some acb) ctx (Some c) (Some l) (Some fd) = ret res \<and>
      found_result (alg_page bo r) fst (alg_visitor mset mclr acb) ctx l res) \<and>
    (\<exists>res. parse_pcrs_find bo (Some r) (Some pcb) ctx (Some c) (Some l) (Some fd) = ret res \<and>
      found_result (pcr_page bo r) fst (pcr_visitor pcb) ctx l res)"
  by (intro conjI parse_algs_find_refines parse_pcrs_find_refines assms)

theorem parse_find_decodes_witness:
  "(\<exists>res. parse_algs_find Little_Endian (Some zero_cmd) 0 0 (Some (\<lambda>a p c. (True, c))) () (Some 0) (Some 0) (Some False) = ret res \<and>
      found_result (alg_page Little_Endian zero_cmd) fst (alg_visitor 0 0 (\<lambda>a p c. (True, c))) () 0 res) \<and>
    (\<exists>res. parse_pcrs_find Little_Endian (Some zero_cmd) (Some (\<lambda>h m c. (True, c))) () (Some 0) (Some 0) (Some False) = ret res \<and>
      found_result (pcr_page Little_Endian zero_cmd) fst (pcr_visitor (\<lambda>h m c. (True, c))) () 0 res)"
  by (rule parse_find_decodes [OF wf_zero_cmd])

text \<open>
  C27: a response that encodes a list of algorithms with their properties is parsed back to
  that list: every queried algorithm that is in it gets enabled, and the outputs are its
  length and its last algorithm.
\<close>

theorem algs_round_trip:
  assumes "length es \<le> 39" and "terminated alg_id TPM_MAX_ALG_PROPERTIES query"
  shows "parse_algs bo (Some (cap_response bo m TPM_CAP_ALGS (length es) (encode_algs es))) query (Some c) (Some l) =
    ret (TPM_SUCCESS, upto_null alg_id (\<lambda>q. q\<lparr>enabled := enabled q \<or> alg_id q \<in> fst ` set es\<rparr>) query,
      Some (of_nat (length es)), Some (last (0 # map fst es)))"
proof -
  have len: "length (encode_algs es) \<le> 237" using assms(1) by (simp add: length_encode_algs)
  with page_cap_response [of "encode_algs es" "length es" decode_algs TPM_CAP_ALGS bo m] assms(1)
  have pg: "alg_page bo (cap_response bo m TPM_CAP_ALGS (length es) (encode_algs es)) = Some (es, True)"
    using decode_encode_algs [of es "[]"] by (simp add: alg_page_def)
  show ?thesis
    unfolding parse_algs_refines [OF wf_cap_response [OF len] assms(2)] pg by (simp add: query_result_def mark_algs_set)
qed

theorem algs_round_trip_witness:
  "parse_algs Little_Endian (Some (cap_response Little_Endian True TPM_CAP_ALGS (length sim_list) (encode_algs sim_list)))
     sim_algs (Some 0) (Some 0) =
    ret (TPM_SUCCESS, upto_null alg_id (\<lambda>q. q\<lparr>enabled := enabled q \<or> alg_id q \<in> fst ` set sim_list\<rparr>) sim_algs,
      Some (of_nat (length sim_list)), Some (last (0 # map fst sim_list)))"
  by (rule algs_round_trip [OF _ sim_terminated(1)]) (simp add: sim_list_def)

text \<open>
  C28: a response that encodes a list of PCR selections is parsed back: every queried bank gets
  the mask of the last selection for its hash.
\<close>

theorem pcrs_round_trip:
  assumes "length (encode_pcrs es) \<le> 237" and "\<forall>e \<in> set es. length (snd e) \<le> 3"
    and "terminated bq_hash_alg TPM_MAX_PCR_SELECTIONS query"
  shows "parse_pcrs bo (Some (cap_response bo m TPM_CAP_PCRS (length es) (encode_pcrs es))) query (Some c) (Some l) =
    ret (TPM_SUCCESS, upto_null bq_hash_alg (\<lambda>q. q\<lparr>bq_pcr_select := last_mask es (bq_hash_alg q) (bq_pcr_select q)\<rparr>) query,
      Some (of_nat (length es)), Some (last (0 # map fst es)))"
proof -
  have "length es < 2 ^ 32" using length_encode_pcrs [of es] assms(1) by simp
  with page_cap_response [of "encode_pcrs es" "length es" decode_pcrs TPM_CAP_PCRS bo m] assms(1)
  have pg: "pcr_page bo (cap_response bo m TPM_CAP_PCRS (length es) (encode_pcrs es)) = Some (es, True)"
    using decode_encode_pcrs [OF assms(2), of "[]"] by (simp add: pcr_page_def)
  show ?thesis
    unfolding parse_pcrs_refines [OF wf_cap_response [OF assms(1)] assms(3)] pg by (simp add: query_result_def mark_pcrs_set)
qed

theorem pcrs_round_trip_witness:
  "parse_pcrs Little_Endian (Some (cap_response Little_Endian False TPM_CAP_PCRS 1 (encode_pcrs [(0xB, [0xFF, 0, 1])])))
     sim_pcrs (Some 0) (Some 0) =
    ret (TPM_SUCCESS, upto_null bq_hash_alg (\<lambda>q. q\<lparr>bq_pcr_select := last_mask [(0xB, [0xFF, 0, 1])] (bq_hash_alg q) (bq_pcr_select q)\<rparr>)
      sim_pcrs, Some 1, Some 0xB)"
  using pcrs_round_trip [of "[(0xB, [0xFF, 0, 1])]" sim_pcrs Little_Endian False 0 0, OF _ _ sim_terminated(2)]
  by (simp add: encode_pcrs_def)

section \<open>Building commands, reading responses\<close>

text \<open>
  C29: a command built from fields of one, two and four bytes is, on the wire, the tag, the
  total size, the command code and the fields, all big-endian whatever the byte order of the
  host; if that exceeds the buffer the builder reports \<open>TPM_INVALID_PARAM\<close>.
\<close>

theorem builder_emits:
  fixes s :: 's
  assumes "\<forall>x \<in> set xs. valid_field x"
  shows "\<exists>rc cmd. build_cmd bo tg code (each (add_field bo) xs) s = Some (Inr ((rc, cmd), s)) \<and>
    (let bs = concat (map field_bytes xs) in
     if TPM_HEADER_SIZE + length bs \<le> MAX_SIZE_CMDBUF
     then rc = TPM_SUCCESS \<and> cmd_bytes bo cmd = wire tg code bs \<and> wf_cmd cmd
     else rc = TPM_INVALID_PARAM)"
proof -
  obtain b where "(build_cmd bo tg code (each (add_field bo) xs) :: ('s, int \<times> tpm_cmd) op) = ret (b_error_state b, b_cmd b)"
    "built bo tg code (concat (map field_bytes xs)) b"
    using build_cmd_eq [OF build_fields [OF assms]] by blast
  then show ?thesis by (auto simp: built_def Let_def ret_def split: if_splits)
qed

theorem builder_emits_witness:
  "\<exists>rc cmd. build_cmd Little_Endian TPM_ST_NO_SESSIONS TPM_CMD_STARTUP (each (add_field Little_Endian) [(1, 2)]) () = Some (Inr ((rc, cmd), ())) \<and>
    (let bs = concat (map field_bytes [(1, 2)]) in
     if TPM_HEADER_SIZE + length bs \<le> MAX_SIZE_CMDBUF
     then rc = TPM_SUCCESS \<and> cmd_bytes Little_Endian cmd = wire TPM_ST_NO_SESSIONS TPM_CMD_STARTUP bs \<and> wf_cmd cmd
     else rc = TPM_INVALID_PARAM)"
  by (rule builder_emits) (simp add: valid_field_def)

text \<open>
  C30: adding a field keeps the invariant of the builder (the size in the header lies between
  10 and 256, the buffer keeps its length, tag and code stay), appends exactly the bytes of
  the field if they fit, and otherwise sets an error that no later field clears.
\<close>

theorem builder_keeps_invariant:
  assumes "builder_inv bo tg code b" and "valid_field (v, n)"
  shows "\<exists>rc t. tpm_update_buffer bo v n b = Some (Inr (rc, t)) \<and> rc = b_error_state t \<and> builder_inv bo tg code t \<and>
    builder_contents bo t = append_within MAX_CMD_DATA (builder_contents bo b) (field_bytes (v, n))"
  using update_buffer_wp [OF assms] unfolding wp_total_iff by blast

theorem builder_keeps_invariant_witness:
  "\<exists>rc t. tpm_update_buffer Little_Endian 7 4 (tpm_cmd_init Little_Endian 0x8001 0x144) = Some (Inr (rc, t)) \<and>
    rc = b_error_state t \<and> builder_inv Little_Endian 0x8001 0x144 t \<and>
    builder_contents Little_Endian t =
      append_within MAX_CMD_DATA (builder_contents Little_Endian (tpm_cmd_init Little_Endian 0x8001 0x144)) (field_bytes (7, 4))"
  by (rule builder_keeps_invariant [OF init_inv]) (simp add: valid_field_def)

text \<open>
  C31: a field of any other size is rejected: the error is set and nothing is written to the
  command.
\<close>

theorem update_buffer_rejects:
  assumes "b_error_state b = TPM_SUCCESS" and "n \<notin> {1, 2, 4}"
  shows "tpm_update_buffer bo v n b = Some (Inr (TPM_INVALID_PARAM, b\<lparr>b_error_state := TPM_INVALID_PARAM\<rparr>))"
  using assms by (simp add: tpm_update_buffer_def andthen_def get_state_def set_error_def modify_def ret_def
      new_bytes_def Let_def)

theorem update_buffer_rejects_witness:
  "tpm_update_buffer Little_Endian 7 3 (tpm_cmd_init Little_Endian 1 2) =
    Some (Inr (TPM_INVALID_PARAM, (tpm_cmd_init Little_Endian 1 2)\<lparr>b_error_state := TPM_INVALID_PARAM\<rparr>))"
  by (rule update_buffer_rejects) (simp_all add: tpm_cmd_init_def Let_def)

text \<open>
  C32: the readers of the iterator deliver the next bytes, big-endian, and advance behind them;
  when fewer are left they leave the variable alone and the iterator stays failed. They never
  read outside the window of the iterator.
\<close>

theorem iter_reads:
  assumes "iter_inv s"
  shows "wp False False (iter_read_u16_be (Some old)) (\<lambda>r t. iter_inv t \<and>
      (case iter_view s of
         Some (a # b # rest) \<Rightarrow> snd r = Some (of_be16 a b) \<and> iter_view t = Some rest
       | _ \<Rightarrow> snd r = Some old \<and> iter_view t = None)) s \<and>
    wp False False (iter_read_u32_be (Some old')) (\<lambda>r t. iter_inv t \<and>
      (case iter_view s of
         Some (a # b # c # d # rest) \<Rightarrow> snd r = Some (of_be32 a b c d) \<and> iter_view t = Some rest
       | _ \<Rightarrow> snd r = Some old' \<and> iter_view t = None)) s"
proof (intro conjI, goal_cases)
  case 1
  show ?case
  proof (cases "\<exists>a b rest. iter_view s = Some (a # b # rest)")
    case True
    then obtain a b rest where v: "iter_view s = Some (a # b # rest)" by blast
    show ?thesis by (rule wp_mono [OF read_u16 [OF assms v]]) (simp add: v)
  next
    case False
    then have "length bs < unat (2 :: u64)" if "iter_view s = Some bs" for bs
      using that by (cases bs rule: list.exhaust; cases "tl bs") auto
    then show ?thesis
      unfolding iter_read_u16_be_def
      by (rule wp_mono [OF read_failed [OF assms]]) (use False in \<open>auto split: option.splits list.splits\<close>)
  qed
next
  case 2
  show ?case
  proof (cases "\<exists>a b c d rest. iter_view s = Some (a # b # c # d # rest)")
    case True
    then obtain a b c d rest where v: "iter_view s = Some (a # b # c # d # rest)" by blast
    show ?thesis by (rule wp_mono [OF read_u32 [OF assms v]]) (simp add: v)
  next
    case False
    then have "length bs < unat (4 :: u64)" if "iter_view s = Some bs" for bs
      using that list_of_4 [of bs] by auto
    then show ?thesis
      unfolding iter_read_u32_be_def
      by (rule wp_mono [OF read_failed [OF assms]]) (use False in \<open>auto split: option.splits list.splits\<close>)
  qed
qed

theorem iter_reads_witness:
  "iter_inv (Some \<lparr>ptr = Some [1, 2, 3], remain = 3, error_state = 0\<rparr>) \<and>
   wp False False (iter_read_u16_be (Some 0)) (\<lambda>r t. iter_inv t \<and> snd r = Some 0x102 \<and> iter_view t = Some [3])
     (Some \<lparr>ptr = Some [1, 2, 3], remain = 3, error_state = 0\<rparr>)"
  using iter_reads [of "Some \<lparr>ptr = Some [1, 2, 3], remain = 3, error_state = 0\<rparr>" 0 0]
  by (simp add: iter_inv_def iter_view_def of_be16_def)

section \<open>Opening and closing\<close>

text \<open>
  C33: a successful \<^verbatim>\<open>tpm_interface_init\<close> has stored the transport, the timer (the caller's, or
  the library's) and the operations of the FIFO, has written the request for the locality once
  and seen the TPM grant it, and leaves the locality in the chip data.
\<close>

theorem init_opens:
  assumes "tpm_interface_init lib_timer transport tops (Some chip) loc s = Some (Inr ((TPM_SUCCESS, c), t))"
  shows "c = Some (chip\<lparr>locality := loc\<rparr>) \<and> interface t = Some Fifo_Ops \<and> tpm_spidev t = transport \<and>
    tpm_timeout_ops t = chosen_timer lib_timer tops \<and>
    (\<exists>tr1 tr2. reg_run (configured transport (chosen_timer lib_timer tops) s) (tr1 @ tr2) t \<and>
      locality_granted chip loc (TPM_SUCCESS, c) tr1 \<and> reg_writes tr2 = [])"
  by (intro conjI init_success [OF assms])

lemma sim_init:
  "tpm_interface_init None (Some \<lparr>ops = with_clock script_ops\<rparr>) (Some (tpm_lib_timeout_ops read_clock)) (Some sim_chip) 0
     (sim [0x20, 0x34, 1] 0) = Some (Inr ((TPM_SUCCESS, Some (sim_chip\<lparr>locality := 0\<rparr>)), sim [] 1))"
proof -
  have "chosen_timer None (Some (tpm_lib_timeout_ops read_clock)) = Some (tpm_lib_timeout_ops (read_clock :: byte list \<times> nat \<Rightarrow> _))"
    by (simp add: chosen_timer_def)
  note init_eq [OF this]
  moreover have "configured (Some \<lparr>ops = with_clock script_ops\<rparr>) (Some (tpm_lib_timeout_ops read_clock)) (sim bs t) = sim bs t" for bs t
    by (simp add: configured_def sim_def)
  moreover have "interface (sim bs t) = Some Fifo_Ops" for bs t by (simp add: sim_def)
  moreover have w: "(0x20 :: byte) AND TPM_ACCESS_ACTIVE_LOCALITY = TPM_ACCESS_ACTIVE_LOCALITY" by simp
  ultimately show ?thesis
    by (simp add: tpm2_fifo_request_access_def interface_get_info_def tpm2_get_info_def op_defs
        sim_wait [OF w, simplified] end_of_time_def Let_def)
qed

theorem init_opens_witness:
  "\<exists>c t. tpm_interface_init None (Some \<lparr>ops = with_clock script_ops\<rparr>) (Some (tpm_lib_timeout_ops read_clock)) (Some sim_chip) 0
     (sim [0x20, 0x34, 1] 0) = Some (Inr ((TPM_SUCCESS, c), t)) \<and>
    c = Some (sim_chip\<lparr>locality := 0\<rparr>) \<and> interface t = Some Fifo_Ops"
  using sim_init init_opens [OF sim_init] by blast

text \<open>
  C34: without a timer, neither from the caller nor compiled in, \<^verbatim>\<open>tpm_interface_init\<close> returns
  \<open>TPM_INVALID_PARAM\<close>; the TPM is not accessed, the chip data and the operation table stay.
\<close>

theorem init_needs_timer:
  "tpm_interface_init None transport None cd loc s = Some (Inr ((TPM_INVALID_PARAM, cd), s\<lparr>tpm_spidev := transport\<rparr>))"
  by (rule init_no_timer) (simp add: chosen_timer_def)

text \<open>
  C35: \<^verbatim>\<open>tpm_interface_close\<close> first reads the access register of the locality. If that fails
  it returns the error; if the value has the pending or the valid bit it writes the release of
  the locality, once, and returns the code of that write; otherwise it writes nothing and
  returns \<open>TPM_ERR_RESPONSE\<close>. It accesses no other register.
\<close>

theorem close_releases: "traced (tpm_interface_close cd loc) (released loc)"
  unfolding tpm_interface_close_def interface_release_locality_def
  by (rule traced_interface) (simp only: interface_ops.case traced_release)

section \<open>The transport\<close>

text \<open>
  C36: every register access on the SPI bus is one well-formed transaction: the bus is taken,
  the transaction started, the header sent, at most 50 wait-state polls, at most one data
  phase, the transaction stopped and the bus released; the return code tells how far it got,
  and the bus is idle again in every case.
\<close>

theorem bus_trace:
  assumes "log_at D e l s" and "bus_run l = Bus_Idle" and "len \<le> ENCODE_LIMIT"
  shows "\<exists>rc v t tr. tpm2_fifo_io reg access len val s = Some (Inr ((rc, v), t)) \<and> log_at D e (l @ tr) t \<and>
    io_trace reg access len val rc tr \<and> bus_run (l @ tr) = Bus_Idle"
proof -
  obtain rc v t tr where run: "tpm2_fifo_io reg access len val s = Some (Inr ((rc, v), t))"
    and tr: "io_trace reg access len val rc tr" "log_at D e (l @ tr) t"
    using fifo_io_log [OF assms(1,3), of reg access val] unfolding wp_total_iff by auto
  have "logged_bus.bus_at D Bus_Idle s"
    using assms(1,2) by (auto simp: logged_bus.bus_at_def log_at_def split: prod.split)
  from wp_returns [OF logged_bus.fifo_io_phase [OF this] run] tr(2) have "bus_run (l @ tr) = Bus_Idle"
    by (auto simp: logged_bus.bus_at_def log_at_def split: prod.splits)
  with run tr show ?thesis by blast
qed

definition logged_sim :: "(byte list \<times> bus_event list) tpm_lib" where
  "logged_sim =
     \<lparr>tpm_spidev = Some \<lparr>ops = logged script_ops\<rparr>, tpm_timeout_ops = None,
      tpm_last_transport_error = 0, interface = None, plat = ([7], [])\<rparr>"

theorem bus_trace_witness:
  "\<exists>rc v t tr. tpm2_fifo_io 0x18 TPM_ACCESS_READ 1 [0] logged_sim = Some (Inr ((rc, v), t)) \<and> log_at script_ops 0 ([] @ tr) t \<and>
    io_trace 0x18 TPM_ACCESS_READ 1 [0] rc tr \<and> bus_run ([] @ tr) = Bus_Idle"
  by (rule bus_trace) (simp_all add: log_at_def logged_sim_def bus_run_def)

text \<open>
  C37: on a platform that records the codes it returns, a register access of at most 64 bytes
  returns success, a timeout or a transfer error; it is a transfer error exactly if the
  platform has returned a nonzero code, and what \<^verbatim>\<open>tpm_get_last_transport_error\<close> then reports is
  the last nonzero code of the platform, or the error recorded before if there was none. A
  successful read delivers the number of bytes asked for.
\<close>

theorem transport_reports:
  assumes "log_at D e l s" and "len \<le> ENCODE_LIMIT"
  shows "\<exists>rc v t tr. tpm2_fifo_io reg access len val s = Some (Inr ((rc, v), t)) \<and> log_at D e (l @ tr) t \<and>
    io_code rc \<and> (rc = TPM_ERR_TRANSFER \<longleftrightarrow> (\<exists>c \<in> set (codes tr). c \<noteq> 0)) \<and>
    tpm_get_last_transport_error t = Some (Inr (last_error (tpm_last_transport_error s) tr, t)) \<and>
    (rc = 0 \<longrightarrow> length v = (if access = TPM_ACCESS_READ then unat len else length val))"
proof -
  have "tpm_spidev s = Some \<lparr>ops = logged D\<rparr>" using assms(1) by (simp add: log_at_def)
  then obtain rc v t where run: "tpm2_fifo_io reg access len val s = Some (Inr ((rc, v), t))"
    and rc: "io_code rc" "rc = 0 \<longrightarrow> length v = (if access = TPM_ACCESS_READ then unat len else length val)"
    using fifo_io_report [OF _ assms(2), of s _ reg access val] unfolding wp_total_iff by auto
  obtain tr where tr: "io_trace reg access len val rc tr" "log_at D e (l @ tr) t"
    using wp_returns [OF fifo_io_log [OF assms] run] by auto
  then have "tpm_get_last_transport_error t = Some (Inr (last_error (tpm_last_transport_error s) tr, t))"
    using assms(1) by (simp add: tpm_get_last_transport_error_def andthen_def get_state_def ret_def log_at_def last_error_append)
  with run rc tr io_trace_codes [OF tr(1)] show ?thesis by blast
qed

text \<open>A platform that gives the bus only with the error \<open>-5\<close>, and what a register access then reports.\<close>

definition broken_ops :: "byte list tpm_spi_ops" where
  "broken_ops = script_ops\<lparr>get_access := (\<lambda>p. (- 5, p))\<rparr>"

definition broken_sim :: "(byte list \<times> bus_event list) tpm_lib" where
  "broken_sim = logged_sim\<lparr>tpm_spidev := Some \<lparr>ops = logged broken_ops\<rparr>\<rparr>"

lemma broken_io:
  "\<exists>v t. tpm2_fifo_io 0x18 TPM_ACCESS_READ 1 [0] broken_sim = Some (Inr ((TPM_ERR_TRANSFER, v), t)) \<and> tpm_last_transport_error t = - 5"
  by (simp add: tpm2_fifo_io_def tpm2_spi_init_def spidev_ops_def op_defs broken_sim_def
      broken_ops_def logged_sim_def logged_def)

theorem transport_reports_witness:
  "\<exists>v t tr. tpm2_fifo_io 0x18 TPM_ACCESS_READ 1 [0] broken_sim = Some (Inr ((TPM_ERR_TRANSFER, v), t)) \<and> log_at broken_ops 0 tr t \<and>
    (\<exists>c \<in> set (codes tr). c \<noteq> 0) \<and> tpm_get_last_transport_error t = Some (Inr (- 5, t)) \<and> last_error 0 tr = - 5"
proof -
  have "log_at broken_ops 0 [] broken_sim" and e: "tpm_last_transport_error broken_sim = 0"
    by (simp_all add: log_at_def broken_sim_def logged_sim_def)
  from transport_reports [OF this(1), of 1 "0x18" TPM_ACCESS_READ "[0]"] broken_io show ?thesis
    by (auto simp: e tpm_get_last_transport_error_def op_defs) blast+
qed

text \<open>
  C38: the four header bytes of a transaction tell the TPM the direction, the length of 1 to 64
  bytes, the address prefix and the register; different accesses have different headers.
\<close>

theorem spi_header_decodes:
  assumes "0 < len" and "len \<le> ENCODE_LIMIT"
  shows "decode_header (spi_header reg access len) = (access = TPM_ACCESS_READ, unat len, TPM_SPI_ADDR_PREFIX, reg)"
  by (rule decode_spi_header [OF assms])

theorem spi_header_decodes_witness:
  "decode_header (spi_header 0xF00 TPM_ACCESS_READ 64) = (TPM_ACCESS_READ = TPM_ACCESS_READ, unat (64 :: byte), TPM_SPI_ADDR_PREFIX, 0xF00)"
  by (rule spi_header_decodes) simp_all

section \<open>Timer and byte order\<close>

text \<open>
  C39: the POSIX timer reports a timeout as elapsed exactly when the clock, read in whole
  microseconds, has advanced by at least the requested time, for every time of the clock in
  the first 2^40 seconds.
\<close>

theorem timer_exact:
  assumes "clk p = (ts, p')" and "0 \<le> tv_sec ts" and "tv_sec ts < 2 ^ 40" and "0 \<le> tv_nsec ts" and "tv_nsec ts < 10 ^ 9"
    and "clk q = (ts', q')" and "0 \<le> tv_sec ts'" and "tv_sec ts' < 2 ^ 40" and "0 \<le> tv_nsec ts'" and "tv_nsec ts' < 10 ^ 9"
  shows "fst (timeout_elapsed (tpm_lib_timeout_ops clk) (fst (timeout_init_us (tpm_lib_timeout_ops clk) us p)) q) \<longleftrightarrow>
    tv_sec ts * 10 ^ 6 + tv_nsec ts div 1000 + uint us \<le> tv_sec ts' * 10 ^ 6 + tv_nsec ts' div 1000"
proof -
  note now = get_time_us_exact [of clk p ts p'] get_time_us_exact [of clk q ts' q']
  have "tv_nsec ts div 1000 < 10 ^ 6" using assms(5) by simp
  moreover have "tv_sec ts * 10 ^ 6 \<le> (2 ^ 40 - 1) * 10 ^ 6" using assms(3) by simp
  moreover have us: "uint us < 2 ^ 32" using unsigned_less [of us, where 'a = int] by simp
  ultimately have "uint (fst (get_time_us clk p)) + uint us < 2 ^ 64" using now(1) assms by simp
  then have "uint (fst (get_time_us clk p) + ucast us) = uint (fst (get_time_us clk p)) + uint us"
    using us by (simp add: uint_word_ariths unsigned_ucast_eq take_bit_int_eq_self)
  then show ?thesis
    using now assms by (simp add: posix.init_law posix.elapsed_law word_le_def)
qed

theorem timer_exact_witness:
  "fst (timeout_elapsed (tpm_lib_timeout_ops (\<lambda>n. (\<lparr>tv_sec = n, tv_nsec = 5\<rparr>, n + 1)))
      (fst (timeout_init_us (tpm_lib_timeout_ops (\<lambda>n. (\<lparr>tv_sec = n, tv_nsec = 5\<rparr>, n + 1))) 1000000 (3 :: int))) 4) \<longleftrightarrow>
    (3 :: int) * 10 ^ 6 + 5 div 1000 + uint (1000000 :: u32) \<le> 4 * 10 ^ 6 + 5 div 1000"
  using timer_exact [of "\<lambda>n. (\<lparr>tv_sec = n, tv_nsec = 5\<rparr>, n + 1)" 3 "\<lparr>tv_sec = 3, tv_nsec = 5\<rparr>" 4 4 "\<lparr>tv_sec = 4, tv_nsec = 5\<rparr>" 5 1000000]
  by simp

text \<open>
  C40: on hosts of either byte order the conversions are inverse to each other, a converted
  value lies in memory in big-endian order, and ten bytes read into a header give tag, size
  and code in big-endian order.
\<close>

theorem endian_round_trip:
  "be32toh bo (htobe32 bo x) = x \<and> be16toh bo (htobe16 bo y) = y \<and> htobe32 bo (be32toh bo x) = x \<and>
   mem32 bo (htobe32 bo x) = be32 x \<and> mem16 bo (htobe16 bo y) = be16 y \<and>
   hdr_of_bytes bo (hdr_bytes bo h) = h \<and>
   be32toh bo (cmd_size (hdr_of_bytes bo hs)) = of_be32 (hs ! 2) (hs ! 3) (hs ! 4) (hs ! 5)"
  by (simp add: announced_header)

end
